theory Spec2Isabelle
  imports Main "HOL-Library.AList"
begin

section \<open>Strings\<close>

text \<open>
  Python strings are modelled as byte strings (\<^typ>\<open>string\<close>); addresses, call kinds and
  function signatures of a trace are ASCII.  \<open>str.lower\<close> maps the letters A..Z to a..z
  and leaves every other byte alone.
\<close>

definition lower_char :: "char \<Rightarrow> char" where
  "lower_char c =
     (let n = (of_char c :: nat) in if 65 \<le> n \<and> n \<le> 90 then char_of (n + 32) else c)"

definition lower :: "string \<Rightarrow> string" where
  "lower s = map lower_char s"

section \<open>Trace documents (the JSON read by \<open>load_trace_report\<close>)\<close>

text \<open>A JSON number or string, as the \<open>value\<close> of a call can be either.\<close>

datatype raw = RInt int | RStr string

text \<open>
  One entry of the \<open>calls\<close> array.  A field is \<open>None\<close> when the key is absent, so that
  every \<open>call.get(key, default)\<close> of the source is a case distinction here.
\<close>

record call =
  c_from :: "string option"
  c_to :: "string option"
  c_type :: "string option"
  c_function_signature :: "string option"
  c_function_selector :: "string option"
  c_value :: "raw option"
  c_depth :: "int option"

text \<open>
  The \<open>trace_summary\<close> / \<open>summary\<close> object: its \<open>calls\<close> key, and whether it has any
  other key (an object without keys is falsy in Python).
\<close>

record summary =
  s_calls :: "call list option"
  s_other_keys :: bool

text \<open>The \<open>original_transaction\<close> / \<open>trace\<close> objects, of which only \<open>from\<close> and \<open>to\<close> are read.\<close>

record tx_info =
  tx_from :: "string option"
  tx_to :: "string option"
  tx_other_keys :: bool

record trace_doc =
  d_trace_summary :: "summary option"
  d_summary :: "summary option"
  d_original_transaction :: "tx_info option"
  d_trace :: "tx_info option"

section \<open>The multigraph (networkx \<open>MultiDiGraph\<close>)\<close>

text \<open>
  The attributes \<open>build_graph\<close> puts on an edge.
\<close>

record edge_attrs =
  e_type :: string
  e_function :: string
  e_value :: raw
  e_depth :: int

type_synonym edge = "string \<times> string \<times> edge_attrs"

text \<open>
  A \<open>MultiDiGraph\<close> keeps its nodes in a dictionary (insertion order, no duplicates) and
  every added edge under a fresh key, so parallel edges stay apart.  The model keeps the
  nodes in insertion order and the edges in the order they were added; the views the
  source uses (\<open>in_degree\<close>, \<open>successors\<close>, \<open>edges\<close>) are computed from these.
\<close>

record graph =
  g_nodes :: "string list"
  g_edges :: "edge list"

definition empty_graph :: graph where
  "empty_graph = \<lparr>g_nodes = [], g_edges = []\<rparr>"

definition has_node :: "graph \<Rightarrow> string \<Rightarrow> bool" where
  "has_node g n = (n \<in> set (g_nodes g))"

definition add_node :: "string \<Rightarrow> graph \<Rightarrow> graph" where
  "add_node n g = (if n \<in> set (g_nodes g) then g else g\<lparr>g_nodes := g_nodes g @ [n]\<rparr>)"

text \<open>\<open>add_edge\<close> of networkx also adds an endpoint that is not a node yet.\<close>

definition add_edge :: "string \<Rightarrow> string \<Rightarrow> edge_attrs \<Rightarrow> graph \<Rightarrow> graph" where
  "add_edge u v a g =
     (let g' = add_node v (add_node u g) in g'\<lparr>g_edges := g_edges g' @ [(u, v, a)]\<rparr>)"

definition number_of_nodes :: "graph \<Rightarrow> int" where
  "number_of_nodes g = int (length (g_nodes g))"

definition number_of_edges :: "graph \<Rightarrow> int" where
  "number_of_edges g = int (length (g_edges g))"

definition in_degree :: "graph \<Rightarrow> string \<Rightarrow> int" where
  "in_degree g n = int (length (filter (\<lambda>e. fst (snd e) = n) (g_edges g)))"

text \<open>Duplicates removed, the first occurrence kept (the key order of a Python dict).\<close>

fun dedup :: "'a list \<Rightarrow> 'a list" where
  "dedup [] = []"
| "dedup (x # xs) = x # dedup (filter (\<lambda>y. y \<noteq> x) xs)"

text \<open>
  \<open>successors(n)\<close> iterates the keys of the adjacency dictionary of \<open>n\<close>: each successor
  once, in the order of the first edge to it.
\<close>

definition successors :: "graph \<Rightarrow> string \<Rightarrow> string list" where
  "successors g n = dedup (map (\<lambda>e. fst (snd e)) (filter (\<lambda>e. fst e = n) (g_edges g)))"

section \<open>The builder object\<close>

datatype error = ValueError | FileNotFoundError | KeyError | OverflowError

text \<open>
  The state of a \<open>GraphBuilder\<close>: the document stored at \<open>trace_report_path\<close> (\<open>None\<close>
  when there is no such file), and the two attributes \<open>graph\<close> and \<open>trace_data\<close>.
\<close>

record builder =
  trace_report :: "trace_doc option"
  graph :: "graph option"
  trace_data :: "trace_doc option"

definition init :: "trace_doc option \<Rightarrow> builder" where
  "init file = \<lparr>trace_report = file, graph = None, trace_data = None\<rparr>"

definition load_trace_report :: "builder \<Rightarrow> error + (trace_doc \<times> builder)" where
  "load_trace_report b =
     (case trace_report b of
        None \<Rightarrow> Inl FileNotFoundError
      | Some d \<Rightarrow> Inr (d, b\<lparr>trace_data := Some d\<rparr>))"

text \<open>Truthiness of a JSON object: it has at least one key.\<close>

definition summary_truthy :: "summary \<Rightarrow> bool" where
  "summary_truthy s = (s_calls s \<noteq> None \<or> s_other_keys s)"

definition empty_summary :: summary where
  "empty_summary = \<lparr>s_calls = None, s_other_keys = False\<rparr>"

text \<open>\<open>trace_data.get("trace_summary") or trace_data.get("summary", {})\<close>\<close>

definition doc_summary :: "trace_doc \<Rightarrow> summary" where
  "doc_summary d =
     (case d_trace_summary d of
        Some s \<Rightarrow> if summary_truthy s then s
                  else (case d_summary d of Some s' \<Rightarrow> s' | None \<Rightarrow> empty_summary)
      | None \<Rightarrow> (case d_summary d of Some s' \<Rightarrow> s' | None \<Rightarrow> empty_summary))"

definition get_trace_summary :: "builder \<Rightarrow> error + (summary \<times> builder)" where
  "get_trace_summary b =
     (case trace_data b of
        Some d \<Rightarrow> Inr (doc_summary d, b)
      | None \<Rightarrow> (case load_trace_report b of
                   Inl e \<Rightarrow> Inl e
                 | Inr (d, b') \<Rightarrow> Inr (doc_summary d, b')))"

text \<open>\<open>trace_summary.get("calls", [])\<close>\<close>

definition summary_calls :: "summary \<Rightarrow> call list" where
  "summary_calls s = (case s_calls s of Some cs \<Rightarrow> cs | None \<Rightarrow> [])"

section \<open>\<open>build_graph\<close>\<close>

definition call_from_lower :: "call \<Rightarrow> string" where
  "call_from_lower c = lower (case c_from c of Some a \<Rightarrow> a | None \<Rightarrow> [])"

definition call_to_lower :: "call \<Rightarrow> string" where
  "call_to_lower c = lower (case c_to c of Some a \<Rightarrow> a | None \<Rightarrow> [])"

text \<open>\<open>call.get("function_signature", call.get("function_selector", "unknown"))\<close>\<close>

definition call_function :: "call \<Rightarrow> string" where
  "call_function c =
     (case c_function_signature c of
        Some f \<Rightarrow> f
      | None \<Rightarrow> (case c_function_selector c of Some f \<Rightarrow> f | None \<Rightarrow> ''unknown''))"

definition call_attrs :: "call \<Rightarrow> edge_attrs" where
  "call_attrs c =
     \<lparr>e_type = (case c_type c of Some t \<Rightarrow> t | None \<Rightarrow> ''CALL''),
      e_function = call_function c,
      e_value = (case c_value c of Some v \<Rightarrow> v | None \<Rightarrow> RInt 0),
      e_depth = (case c_depth c of Some d \<Rightarrow> d | None \<Rightarrow> 0)\<rparr>"

text \<open>One iteration of the loop over the calls.\<close>

definition add_call :: "graph \<Rightarrow> call \<Rightarrow> graph" where
  "add_call g c =
     (let from_addr = call_from_lower c; to_addr = call_to_lower c in
      if from_addr = [] \<or> to_addr = [] then g
      else
        let g1 = (if \<not> has_node g from_addr then add_node from_addr g else g);
            g2 = (if \<not> has_node g1 to_addr then add_node to_addr g1 else g1)
        in add_edge from_addr to_addr (call_attrs c) g2)"

definition build_calls :: "call list \<Rightarrow> graph" where
  "build_calls cs = foldl add_call empty_graph cs"

definition build_graph :: "builder \<Rightarrow> error + (graph \<times> builder)" where
  "build_graph b =
     (case (case trace_data b of
              None \<Rightarrow> (case load_trace_report b of Inl e \<Rightarrow> Inl e | Inr (d, b') \<Rightarrow> Inr b')
            | Some d \<Rightarrow> Inr b) of
        Inl e \<Rightarrow> Inl e
      | Inr b1 \<Rightarrow>
          (case get_trace_summary (b1\<lparr>graph := Some empty_graph\<rparr>) of
             Inl e \<Rightarrow> Inl e
           | Inr (s, b2) \<Rightarrow>
               let calls = summary_calls s in
               if calls = [] then Inr (empty_graph, b2)
               else let g = build_calls calls in Inr (g, b2\<lparr>graph := Some g\<rparr>)))"

section \<open>\<open>calculate_graph_depth\<close>\<close>

text \<open>
  The nodes a traversal starts from: those without incoming edge, or all nodes when
  there is none.
\<close>

definition start_nodes :: "graph \<Rightarrow> string list" where
  "start_nodes g =
     (let in_degree_zero = filter (\<lambda>n. in_degree g n = 0) (g_nodes g)
      in if in_degree_zero = [] then g_nodes g else in_degree_zero)"

text \<open>
  The local variables of one run of the \<open>while queue\<close> loop, and \<open>max_depth\<close>, which
  lives across the runs.  \<open>depths\<close> is a dictionary, kept as an association list.
\<close>

record dstate =
  d_queue :: "string list"
  d_depths :: "(string \<times> int) list"
  d_visited :: "string set"
  d_max :: int

text \<open>
  The body of \<open>for successor in self.graph.successors(current)\<close>.  (The source also
  computes \<open>max_edge_depth\<close> there and never reads it.)
\<close>

definition relax ::
  "string \<Rightarrow> int \<Rightarrow> string set \<Rightarrow> (string \<times> int) list \<times> string list \<Rightarrow> string
     \<Rightarrow> (string \<times> int) list \<times> string list" where
  "relax current current_depth visited acc successor =
     (case acc of (depths, queue) \<Rightarrow>
      if successor = current then (depths, queue)
      else
        let new_depth = current_depth + 1 in
        if successor \<in> visited \<and>
           new_depth \<le> (case map_of depths successor of Some d \<Rightarrow> d | None \<Rightarrow> 0)
        then (depths, queue)
        else (AList.update successor new_depth depths,
              if successor \<notin> visited then queue @ [successor] else queue))"

text \<open>
  The \<open>while queue\<close> loop.  Whether it ends is not evident from its text, so it is a
  partial function: \<open>None\<close> is a run that never returns.  A failing \<open>depths[current]\<close>
  raises \<open>KeyError\<close>, which the enclosing \<open>try\<close> catches: the run of this start node
  ends there, with \<open>max_depth\<close> as it is.
\<close>

partial_function (option) depth_bfs :: "graph \<Rightarrow> dstate \<Rightarrow> dstate option" where
  "depth_bfs g s =
     (case d_queue s of
        [] \<Rightarrow> Some s
      | current # rest \<Rightarrow>
          (case map_of (d_depths s) current of
             None \<Rightarrow> Some (s\<lparr>d_queue := rest\<rparr>)
           | Some current_depth \<Rightarrow>
               let visited = insert current (d_visited s);
                   acc = foldl (relax current current_depth visited) (d_depths s, rest)
                           (successors g current)
               in depth_bfs g \<lparr>d_queue = snd acc, d_depths = fst acc, d_visited = visited,
                                d_max = max (d_max s) current_depth\<rparr>))"

declare depth_bfs.simps [code]

definition depth_start :: "int \<Rightarrow> string \<Rightarrow> dstate" where
  "depth_start max_depth start_node =
     \<lparr>d_queue = [start_node], d_depths = [(start_node, 0)], d_visited = {},
      d_max = max_depth\<rparr>"

text \<open>\<open>for start_node in in_degree_zero\<close>, threading \<open>max_depth\<close>.\<close>

fun depth_roots :: "graph \<Rightarrow> string list \<Rightarrow> int \<Rightarrow> int option" where
  "depth_roots g [] max_depth = Some max_depth"
| "depth_roots g (start_node # ns) max_depth =
     (case depth_bfs g (depth_start max_depth start_node) of
        None \<Rightarrow> None
      | Some s \<Rightarrow> depth_roots g ns (d_max s))"

definition graph_depth :: "graph \<Rightarrow> int option" where
  "graph_depth g =
     (if number_of_nodes g = 0 then Some 0 else depth_roots g (start_nodes g) 0)"

definition calculate_graph_depth :: "builder \<Rightarrow> (error + int) option" where
  "calculate_graph_depth b =
     (case graph b of
        None \<Rightarrow> Some (Inl ValueError)
      | Some g \<Rightarrow> map_option Inr (graph_depth g))"

section \<open>\<open>calculate_graph_breadth\<close>\<close>

text \<open>
  \<open>levels\<close> is a \<open>defaultdict(list)\<close>: a total function whose default is the empty list.
\<close>

record bstate =
  b_queue :: "(string \<times> int) list"
  b_levels :: "int \<Rightarrow> string list"
  b_visited :: "string set"
  b_max :: int

definition discover ::
  "string \<Rightarrow> int \<Rightarrow> (int \<Rightarrow> string list) \<times> string set \<times> (string \<times> int) list \<Rightarrow> string
     \<Rightarrow> (int \<Rightarrow> string list) \<times> string set \<times> (string \<times> int) list" where
  "discover current level acc successor =
     (case acc of (levels, visited, queue) \<Rightarrow>
      if successor = current then (levels, visited, queue)
      else if successor \<notin> visited then
        let next_level = level + 1 in
        (levels(next_level := levels next_level @ [successor]),
         insert successor visited,
         queue @ [(successor, next_level)])
      else (levels, visited, queue))"

partial_function (option) breadth_bfs :: "graph \<Rightarrow> bstate \<Rightarrow> bstate option" where
  "breadth_bfs g s =
     (case b_queue s of
        [] \<Rightarrow> Some s
      | (current, level) # rest \<Rightarrow>
          (case foldl (discover current level) (b_levels s, b_visited s, rest)
                  (successors g current) of
             (levels, visited, queue) \<Rightarrow>
               breadth_bfs g \<lparr>b_queue = queue, b_levels = levels, b_visited = visited,
                                b_max = max (b_max s) (int (length (levels level)))\<rparr>))"

declare breadth_bfs.simps [code]

definition breadth_start :: "int \<Rightarrow> string \<Rightarrow> bstate" where
  "breadth_start max_breadth start_node =
     \<lparr>b_queue = [(start_node, 0)], b_levels = (\<lambda>l. [])(0 := [start_node]),
      b_visited = {start_node}, b_max = max_breadth\<rparr>"

fun breadth_roots :: "graph \<Rightarrow> string list \<Rightarrow> int \<Rightarrow> int option" where
  "breadth_roots g [] max_breadth = Some max_breadth"
| "breadth_roots g (start_node # ns) max_breadth =
     (case breadth_bfs g (breadth_start max_breadth start_node) of
        None \<Rightarrow> None
      | Some s \<Rightarrow> breadth_roots g ns (b_max s))"

definition graph_breadth :: "graph \<Rightarrow> int option" where
  "graph_breadth g =
     (if number_of_nodes g = 0 then Some 0 else breadth_roots g (start_nodes g) 0)"

definition calculate_graph_breadth :: "builder \<Rightarrow> (error + int) option" where
  "calculate_graph_breadth b =
     (case graph b of
        None \<Rightarrow> Some (Inl ValueError)
      | Some g \<Rightarrow> map_option Inr (graph_breadth g))"

section \<open>\<open>identify_central_nodes\<close>\<close>

text \<open>
  \<open>Counter.most_common(n)\<close> is \<open>heapq.nlargest(n, items, key = count)\<close>: the items sorted
  by descending count, items of equal count in the order they have in the counter, cut
  to the first \<open>n\<close> (none when \<open>n \<le> 0\<close>).
\<close>

definition most_common :: "int \<Rightarrow> ('a \<times> int) list \<Rightarrow> ('a \<times> int) list" where
  "most_common n items = take (nat n) (sort_key (\<lambda>p. - snd p) items)"

text \<open>
  The counter gets one entry per node of positive in-degree, in the order of
  \<open>graph.nodes()\<close> (the nodes are dictionary keys, each is met once).
\<close>

definition in_degree_counter :: "graph \<Rightarrow> (string \<times> int) list" where
  "in_degree_counter g =
     map (\<lambda>n. (n, in_degree g n)) (filter (\<lambda>n. in_degree g n > 0) (g_nodes g))"

definition identify_central_nodes :: "builder \<Rightarrow> int \<Rightarrow> error + (string \<times> int) list" where
  "identify_central_nodes b top_k =
     (case graph b of
        None \<Rightarrow> Inl ValueError
      | Some g \<Rightarrow> Inr (most_common top_k (in_degree_counter g)))"

section \<open>Vocabulary of the properties\<close>

text \<open>The edge \<open>build_graph\<close> adds for a call.\<close>

definition call_edge :: "call \<Rightarrow> edge" where
  "call_edge c = (call_from_lower c, call_to_lower c, call_attrs c)"

text \<open>A call entry whose \<open>from\<close> and \<open>to\<close> are present and not empty.\<close>

definition valid_call :: "call \<Rightarrow> bool" where
  "valid_call c = (\<exists>a b. c_from c = Some a \<and> a \<noteq> [] \<and> c_to c = Some b \<and> b \<noteq> [])"

text \<open>
  The builder works on document \<open>d\<close>: it has read it already, or will read it from its
  file at the first use.
\<close>

definition loaded :: "builder \<Rightarrow> trace_doc \<Rightarrow> bool" where
  "loaded b d = (trace_data b = Some d \<or> (trace_data b = None \<and> trace_report b = Some d))"

text \<open>Sample inputs.\<close>

definition mk_call :: "string \<Rightarrow> string \<Rightarrow> call" where
  "mk_call a b =
     \<lparr>c_from = Some a, c_to = Some b, c_type = None, c_function_signature = None,
      c_function_selector = None, c_value = None, c_depth = None\<rparr>"

definition doc_of_calls :: "call list \<Rightarrow> trace_doc" where
  "doc_of_calls cs =
     \<lparr>d_trace_summary = Some \<lparr>s_calls = Some cs, s_other_keys = False\<rparr>,
      d_summary = None, d_original_transaction = None, d_trace = None\<rparr>"

text \<open>The position of the first occurrence of \<open>x\<close> in \<open>xs\<close>.\<close>

definition first_index :: "'a list \<Rightarrow> 'a \<Rightarrow> nat" where
  "first_index xs x = length (takeWhile (\<lambda>y. y \<noteq> x) xs)"

text \<open>
  The order of the ranking: a larger in-degree first, and among equal in-degrees the
  node that entered the graph earlier.
\<close>

definition ranked_before :: "graph \<Rightarrow> string \<times> int \<Rightarrow> string \<times> int \<Rightarrow> bool" where
  "ranked_before g p q =
     (snd p > snd q \<or>
      (snd p = snd q \<and> first_index (g_nodes g) (fst p) < first_index (g_nodes g) (fst q)))"

text \<open>The nodes some edge points to.\<close>

definition targets :: "graph \<Rightarrow> string set" where
  "targets g = (\<lambda>e. fst (snd e)) ` set (g_edges g)"

text \<open>
  What decreases along the depth loop: the nodes not visited yet, and then the queue
  entries that are visited already.
\<close>

definition depth_measure :: "graph \<Rightarrow> dstate \<Rightarrow> nat \<times> nat" where
  "depth_measure g s =
     (card ((set (d_queue s) \<union> targets g) - d_visited s),
      length (filter (\<lambda>n. n \<in> d_visited s) (d_queue s)))"

text \<open>What decreases along the breadth loop.\<close>

definition breadth_measure :: "graph \<Rightarrow> string set \<Rightarrow> (string \<times> int) list \<Rightarrow> nat" where
  "breadth_measure g visited queue = card (targets g - visited) + length queue"

text \<open>
  The calls \<open>cs\<close> are a linear chain over the addresses \<open>as\<close>: call \<open>i\<close> goes from
  address \<open>i\<close> to address \<open>i + 1\<close>, there is at least one call, and the addresses are
  not empty and pairwise different (as addresses, that is, after lowercasing).
\<close>

definition linear_chain :: "string list \<Rightarrow> call list \<Rightarrow> bool" where
  "linear_chain as cs =
     (cs \<noteq> [] \<and> length as = Suc (length cs) \<and> distinct (map lower as) \<and> [] \<notin> set as \<and>
      (\<forall>i<length cs. c_from (cs ! i) = Some (as ! i) \<and> c_to (cs ! i) = Some (as ! Suc i)))"

text \<open>A graph that is the path \<open>ns ! 0 \<rightarrow> ns ! 1 \<rightarrow> \<dots> \<rightarrow> ns ! L\<close>, seen through \<open>successors\<close>.\<close>

definition path_graph :: "graph \<Rightarrow> string list \<Rightarrow> nat \<Rightarrow> bool" where
  "path_graph g ns L =
     (distinct ns \<and> length ns = Suc L \<and>
      (\<forall>i<L. successors g (ns ! i) = [ns ! Suc i]) \<and> successors g (ns ! L) = [])"

section \<open>Known contracts and system contracts\<close>

text \<open>The table \<open>KNOWN_CONTRACTS\<close> of \<open>graph_builder.py\<close>, in source order.\<close>

definition KNOWN_CONTRACTS :: "(string \<times> string) list" where
  "KNOWN_CONTRACTS =
    [(''0x3e5c63644e683549055b9be8653de26e0b4cd36e'', ''Gnosis Safe: Proxy Factory''),
     (''0xd9db270c1b5e3bd161e8c8503c55ceabee709552'', ''Gnosis Safe: Master Copy''),
     (''0xa6b71e26c5e0845f74c812102ca7114b6a896ab2'', ''Gnosis Safe: Proxy Factory v1.3.0''),
     (''0xf07ded9dc292157749b6fd268e37df6ea38395b9'', ''Arbitrum Governor''),
     (''0xb4c064f466931b8d0f637654c916e3f203c46f13'', ''Arbitrum Governor (Proposer)''),
     (''0x408ed6354d4973f66138c91495f2f2fcbd8724c3'', ''Uniswap Governor''),
     (''0x0000000000000000000000000000000000000001'', ''Ethereum Precompile: ECRecover''),
     (''0x0000000000000000000000000000000000000002'', ''Ethereum Precompile: SHA256''),
     (''0x0000000000000000000000000000000000000003'', ''Ethereum Precompile: RIPEMD160''),
     (''0x0000000000000000000000000000000000000004'', ''Ethereum Precompile: Identity''),
     (''0x0000000000000000000000000000000000000005'', ''Ethereum Precompile: ModExp''),
     (''0x0000000000000000000000000000000000000064'', ''Arbitrum: L1 ArbSys''),
     (''0x0000000000000000000000000000000000000065'', ''Arbitrum: L2 ArbSys'')]"

definition identify_contract :: "string \<Rightarrow> string option" where
  "identify_contract address = map_of KNOWN_CONTRACTS (lower address)"

text \<open>The table \<open>SYSTEM_CONTRACTS\<close> of \<open>auditor.py\<close>, in source order.\<close>

definition SYSTEM_CONTRACTS :: "(string \<times> string) list" where
  "SYSTEM_CONTRACTS =
    [(''0x0000000000000000000000000000000000000001'', ''Ethereum Precompile: ECRecover''),
     (''0x0000000000000000000000000000000000000002'', ''Ethereum Precompile: SHA256''),
     (''0x0000000000000000000000000000000000000003'', ''Ethereum Precompile: RIPEMD160''),
     (''0x0000000000000000000000000000000000000004'', ''Ethereum Precompile: Identity''),
     (''0x0000000000000000000000000000000000000005'', ''Ethereum Precompile: ModExp''),
     (''0x0000000000000000000000000000000000000006'', ''Ethereum Precompile: BN256Add''),
     (''0x0000000000000000000000000000000000000007'', ''Ethereum Precompile: BN256Mul''),
     (''0x0000000000000000000000000000000000000008'', ''Ethereum Precompile: BN256Pairing''),
     (''0x0000000000000000000000000000000000000009'', ''Ethereum Precompile: Blake2F''),
     (''0x0000000000000000000000000000000000000064'', ''Arbitrum System Contract: L1 ArbSys''),
     (''0x0000000000000000000000000000000000000065'', ''Arbitrum System Contract: L2 ArbSys'')]"

text \<open>\<open>s.startswith(p)\<close>\<close>

definition startswith :: "string \<Rightarrow> string \<Rightarrow> bool" where
  "startswith s p = (take (length p) s = p)"

text \<open>The literal \<open>is_system_contract\<close> tests for: \<open>0x\<close> and 39 zeros.\<close>

definition precompile_prefix :: string where
  "precompile_prefix = ''0x000000000000000000000000000000000000000''"

definition is_system_contract :: "string \<Rightarrow> bool" where
  "is_system_contract address =
     (let addr_lower = lower address in
      if startswith addr_lower precompile_prefix
         \<and> last addr_lower \<in> set ''123456789''
      then True
      else addr_lower \<in> fst ` set SYSTEM_CONTRACTS)"

definition get_system_contract_description :: "string \<Rightarrow> string option" where
  "get_system_contract_description address = map_of SYSTEM_CONTRACTS (lower address)"

text \<open>The 20-byte address whose value is the digit \<open>c\<close>.\<close>

definition precompile_address :: "char \<Rightarrow> string" where
  "precompile_address c = ''0x'' @ replicate 39 CHR ''0'' @ [c]"

text \<open>
  The values that the runs of the depth loop leave in their \<open>depths\<close> dictionaries,
  over all start nodes, and their maximum (what the depth would be if it were the
  largest recorded value).
\<close>

fun recorded_values :: "graph \<Rightarrow> string list \<Rightarrow> int list option" where
  "recorded_values g [] = Some []"
| "recorded_values g (start_node # ns) =
     (case depth_bfs g (depth_start 0 start_node) of
        None \<Rightarrow> None
      | Some s \<Rightarrow> map_option (\<lambda>vs. map snd (d_depths s) @ vs) (recorded_values g ns))"

definition max_recorded :: "graph \<Rightarrow> int option" where
  "max_recorded g = map_option (\<lambda>vs. foldr max vs 0) (recorded_values g (start_nodes g))"

definition diamond :: "call list" where
  "diamond = [mk_call ''0xr'' ''0xb'', mk_call ''0xr'' ''0xa'', mk_call ''0xa'' ''0xb'']"

section \<open>Flattening a call tree (\<open>simulator.py\<close>)\<close>

text \<open>
  A node of the call tree a tracer returns: the keys the traversals read, \<open>None\<close> for
  an absent key.  The children are the value of \<open>calls\<close>; an absent key and an empty
  list behave alike.
\<close>

datatype tnode = TNode
  (n_type: "string option") (n_from: "string option") (n_to: "string option")
  (n_value: "raw option") (n_input: "string option") (n_output: "string option")
  (n_gasUsed: "raw option") (n_gas: "raw option") (n_error: "string option")
  (n_calls: "tnode list")

text \<open>
  The builtin \<open>int(text, base)\<close> is a parameter of the model: \<open>None\<close> is its
  \<open>ValueError\<close>.
\<close>

type_synonym py_int = "nat \<Rightarrow> string \<Rightarrow> int option"

text \<open>
  \<open>int(raw, 16) if raw.startswith("0x") else int(raw)\<close> for a string, the number itself
  otherwise.
\<close>

definition parse_number :: "py_int \<Rightarrow> raw \<Rightarrow> error + int" where
  "parse_number pint v =
     (case v of
        RInt i \<Rightarrow> Inr i
      | RStr s \<Rightarrow>
          (case (if startswith s ''0x'' then pint 16 s else pint 10 s) of
             None \<Rightarrow> Inl ValueError
           | Some i \<Rightarrow> Inr i))"

text \<open>
  The entries of \<open>calls\<close> and \<open>transfers\<close>.  The float \<open>value_eth\<close> of a transfer is
  not kept; that computing it can fail is (\<open>float_overflow\<close> below).
\<close>

record call_info =
  ci_type :: string
  ci_from :: string
  ci_to :: string
  ci_value :: int
  ci_input :: string
  ci_output :: string
  ci_gas_used :: int
  ci_depth :: int
  ci_error :: "string option"

record transfer_info =
  tr_from :: string
  tr_to :: string
  tr_value :: int
  tr_call_type :: string
  tr_depth :: int

definition or_default :: "'a option \<Rightarrow> 'a \<Rightarrow> 'a" where
  "or_default v d = (case v of Some x \<Rightarrow> x | None \<Rightarrow> d)"

text \<open>
  \<open>value / 1e18\<close> turns the integer into a float first, which raises \<open>OverflowError\<close>
  when the integer, rounded to 53 bits (ties to even), reaches \<open>2 ^ 1024\<close>.
\<close>

definition float_overflow :: "int \<Rightarrow> bool" where
  "float_overflow i = (2 ^ 1024 - 2 ^ 970 \<le> \<bar>i\<bar>)"

text \<open>
  What \<open>traverse_trace\<close> appends to \<open>calls\<close> and \<open>transfers\<close> for one node, or the
  exception of \<open>value / 1e18\<close>.
\<close>

definition visit_node ::
  "tnode \<Rightarrow> int \<Rightarrow> int \<Rightarrow> int \<Rightarrow> call_info list \<times> transfer_info list
     \<Rightarrow> error + (call_info list \<times> transfer_info list)" where
  "visit_node node depth val gas_used acc =
     (case acc of (calls, transfers) \<Rightarrow>
      let call_type = or_default (n_type node) [];
          from_addr = or_default (n_from node) [];
          to_addr = or_default (n_to node) []
      in
      if call_type \<in> set [''CALL'', ''DELEGATECALL'', ''STATICCALL'', ''CALLCODE''] then
        let calls' = calls @
              [\<lparr>ci_type = call_type, ci_from = from_addr, ci_to = to_addr, ci_value = val,
                ci_input = or_default (n_input node) ''0x'',
                ci_output = or_default (n_output node) ''0x'',
                ci_gas_used = gas_used, ci_depth = depth, ci_error = n_error node\<rparr>]
        in
        if val > 0 then
          if float_overflow val then Inl OverflowError
          else Inr (calls', transfers @
                      [\<lparr>tr_from = from_addr, tr_to = to_addr, tr_value = val,
                        tr_call_type = call_type, tr_depth = depth\<rparr>])
        else Inr (calls', transfers)
      else Inr (calls, transfers))"

text \<open>
  \<open>traverse_trace\<close>, with the two lists it appends to passed along; \<open>Inl\<close> is an
  exception leaving the traversal.
\<close>

fun traverse_trace ::
  "py_int \<Rightarrow> tnode \<Rightarrow> int \<Rightarrow> call_info list \<times> transfer_info list
     \<Rightarrow> error + (call_info list \<times> transfer_info list)"
and traverse_trace_children ::
  "py_int \<Rightarrow> tnode list \<Rightarrow> int \<Rightarrow> call_info list \<times> transfer_info list
     \<Rightarrow> error + (call_info list \<times> transfer_info list)"
where
  "traverse_trace pint (TNode ty fr to v inp out gu g er cs) depth acc =
     (if depth > 50 then Inr acc
      else
        (case parse_number pint (or_default v (RStr ''0x0'')) of
           Inl e \<Rightarrow> Inl e
         | Inr val \<Rightarrow>
             (case parse_number pint (or_default gu (RStr ''0x0'')) of
                Inl e \<Rightarrow> Inl e
              | Inr gas_used \<Rightarrow>
                  (case visit_node (TNode ty fr to v inp out gu g er cs) depth val gas_used acc of
                     Inl e \<Rightarrow> Inl e
                   | Inr acc' \<Rightarrow> traverse_trace_children pint cs (depth + 1) acc'))))"
| "traverse_trace_children pint [] depth acc = Inr acc"
| "traverse_trace_children pint (child # rest) depth acc =
     (case traverse_trace pint child depth acc of
        Inl e \<Rightarrow> Inl e
      | Inr acc' \<Rightarrow> traverse_trace_children pint rest depth acc')"

text \<open>What reaches the logger, by level.\<close>

datatype log_level = LDebug | LInfo | LWarning | LError

record transfer_summary =
  total_calls :: int
  total_transfers :: int
  total_value_transferred :: int
  ts_calls :: "call_info list"
  ts_transfers :: "transfer_info list"

definition extract_calls_and_transfers ::
  "py_int \<Rightarrow> tnode \<Rightarrow> error + (transfer_summary \<times> log_level list)" where
  "extract_calls_and_transfers pint trace =
     (case traverse_trace pint trace 0 ([], []) of
        Inl e \<Rightarrow> Inl e
      | Inr (calls, transfers) \<Rightarrow>
          Inr (\<lparr>total_calls = int (length calls), total_transfers = int (length transfers),
                total_value_transferred = sum_list (map tr_value transfers),
                ts_calls = calls, ts_transfers = transfers\<rparr>,
               [LInfo]))"

text \<open>\<open>str\<close> of an integer.\<close>

fun str_nat :: "nat \<Rightarrow> string" where
  "str_nat n =
     (if n < 10 then [char_of (48 + n)] else str_nat (n div 10) @ [char_of (48 + n mod 10)])"

definition str_int :: "int \<Rightarrow> string" where
  "str_int i = (if i < 0 then CHR ''-'' # str_nat (nat (- i)) else str_nat (nat i))"

text \<open>\<open>str.isdigit\<close> on ASCII text.\<close>

definition isdigit :: "string \<Rightarrow> bool" where
  "isdigit s = (s \<noteq> [] \<and> (\<forall>c\<in>set s. c \<in> set ''0123456789''))"

text \<open>The entries \<open>_extract_calls_from_call_tracer\<close> returns.\<close>

record tracer_call =
  tc_type :: string
  tc_from :: string
  tc_to :: string
  tc_value :: string
  tc_input :: string
  tc_function_selector :: string
  tc_function_signature :: string
  tc_gas :: string
  tc_depth :: int

definition parse_gas :: "py_int \<Rightarrow> raw \<Rightarrow> error + int" where
  "parse_gas pint v =
     (case v of
        RInt i \<Rightarrow> Inr i
      | RStr s \<Rightarrow>
          if startswith s ''0x'' then
            (case pint 16 s of None \<Rightarrow> Inl ValueError | Some i \<Rightarrow> Inr i)
          else if isdigit s then
            (case pint 10 s of None \<Rightarrow> Inl ValueError | Some i \<Rightarrow> Inr i)
          else Inr 0)"

text \<open>
  One node of \<open>traverse\<close>; \<open>resolve\<close> stands for \<open>resolve_function_signature\<close>, which
  may ask a web service.
\<close>

definition tracer_visit ::
  "py_int \<Rightarrow> (string \<Rightarrow> string) \<Rightarrow> tnode \<Rightarrow> int \<Rightarrow> tracer_call list
     \<Rightarrow> error + tracer_call list" where
  "tracer_visit pint resolve node depth calls =
     (let call_type = or_default (n_type node) [] in
      if call_type \<in> set [''CALL'', ''STATICCALL'', ''DELEGATECALL''] then
        (case parse_number pint (or_default (n_value node) (RStr ''0x0'')) of
           Inl e \<Rightarrow> Inl e
         | Inr val \<Rightarrow>
             let input_data = or_default (n_input node) ''0x'';
                 function_selector = (if length input_data \<ge> 10 then take 10 input_data else ''0x'')
             in
             (case parse_gas pint (or_default (n_gas node) (RStr ''0'')) of
                Inl e \<Rightarrow> Inl e
              | Inr gas \<Rightarrow>
                  Inr (calls @
                    [\<lparr>tc_type = call_type, tc_from = or_default (n_from node) [],
                      tc_to = or_default (n_to node) [], tc_value = str_int val,
                      tc_input = input_data, tc_function_selector = function_selector,
                      tc_function_signature = resolve function_selector,
                      tc_gas = str_int gas, tc_depth = depth\<rparr>])))
      else Inr calls)"

fun traverse ::
  "py_int \<Rightarrow> (string \<Rightarrow> string) \<Rightarrow> tnode \<Rightarrow> int \<Rightarrow> tracer_call list \<Rightarrow> error + tracer_call list"
and traverse_children ::
  "py_int \<Rightarrow> (string \<Rightarrow> string) \<Rightarrow> tnode list \<Rightarrow> int \<Rightarrow> tracer_call list
     \<Rightarrow> error + tracer_call list"
where
  "traverse pint resolve (TNode ty fr to v inp out gu g er cs) depth calls =
     (case tracer_visit pint resolve (TNode ty fr to v inp out gu g er cs) depth calls of
        Inl e \<Rightarrow> Inl e
      | Inr calls' \<Rightarrow> traverse_children pint resolve cs (depth + 1) calls')"
| "traverse_children pint resolve [] depth calls = Inr calls"
| "traverse_children pint resolve (child # rest) depth calls =
     (case traverse pint resolve child depth calls of
        Inl e \<Rightarrow> Inl e
      | Inr calls' \<Rightarrow> traverse_children pint resolve rest depth calls')"

definition extract_calls_from_call_tracer ::
  "py_int \<Rightarrow> (string \<Rightarrow> string) \<Rightarrow> tnode \<Rightarrow> error + tracer_call list" where
  "extract_calls_from_call_tracer pint resolve trace = traverse pint resolve trace 0 []"

text \<open>The tree without the nodes deeper than \<open>n\<close> levels below its root.\<close>

fun cut :: "nat \<Rightarrow> tnode \<Rightarrow> tnode" where
  "cut 0 (TNode ty fr to v inp out gu g er cs) = TNode ty fr to v inp out gu g er []"
| "cut (Suc n) (TNode ty fr to v inp out gu g er cs) =
     TNode ty fr to v inp out gu g er (map (cut n) cs)"

text \<open>A result that is not an exception.\<close>

definition isOK :: "error + 'a \<Rightarrow> bool" where
  "isOK r = (case r of Inl e \<Rightarrow> False | Inr x \<Rightarrow> True)"

text \<open>
  The numbers of one node are good: \<open>value\<close> and \<open>gasUsed\<close> are accepted by \<open>int\<close>, and
  the value, when the node is a call that transfers, converts to a float.
\<close>

definition node_converts ::
  "py_int \<Rightarrow> string option \<Rightarrow> raw option \<Rightarrow> raw option \<Rightarrow> bool" where
  "node_converts pint ty v gu =
     (case parse_number pint (or_default v (RStr ''0x0'')) of
        Inl e \<Rightarrow> False
      | Inr val \<Rightarrow>
          isOK (parse_number pint (or_default gu (RStr ''0x0'')))
          \<and> \<not> (or_default ty [] \<in> set [''CALL'', ''DELEGATECALL'', ''STATICCALL'', ''CALLCODE'']
                \<and> val > 0 \<and> float_overflow val))"

text \<open>The numbers of every node of the tree are good.\<close>

fun numbers_convert :: "py_int \<Rightarrow> tnode \<Rightarrow> bool" where
  "numbers_convert pint (TNode ty fr to v inp out gu g er cs) =
     (node_converts pint ty v gu \<and> list_all (numbers_convert pint) cs)"

text \<open>
  A chain of \<open>n + 1\<close> nested calls (depths \<open>0\<close> to \<open>n\<close>), the numbers given as JSON
  numbers so that \<open>int\<close> is never called.
\<close>

fun deep_chain :: "nat \<Rightarrow> tnode" where
  "deep_chain 0 =
     TNode (Some ''CALL'') (Some ''0xa'') (Some ''0xb'') (Some (RInt 0)) None None
       (Some (RInt 0)) (Some (RInt 0)) None []"
| "deep_chain (Suc n) =
     TNode (Some ''CALL'') (Some ''0xa'') (Some ''0xb'') (Some (RInt 0)) None None
       (Some (RInt 0)) (Some (RInt 0)) None [deep_chain n]"

definition no_parser :: py_int where
  "no_parser base text = None"

text \<open>A single call that transfers \<open>2 ^ 1024\<close> wei.\<close>

definition huge_transfer :: tnode where
  "huge_transfer =
     TNode (Some ''CALL'') (Some ''0xa'') (Some ''0xb'') (Some (RInt (2 ^ 1024))) None None
       (Some (RInt 0)) (Some (RInt 0)) None []"

text \<open>No recorded call or transfer lies deeper than 50.\<close>

definition capped :: "call_info list \<times> transfer_info list \<Rightarrow> bool" where
  "capped acc = ((\<forall>c\<in>set (fst acc). ci_depth c \<le> 50) \<and> (\<forall>t\<in>set (snd acc). tr_depth t \<le> 50))"

text \<open>Projections of a result, for stating what was emitted.\<close>

definition emitted_depths :: "error + (transfer_summary \<times> log_level list) \<Rightarrow> int list" where
  "emitted_depths r = (case r of Inl e \<Rightarrow> [] | Inr (s, logs) \<Rightarrow> map ci_depth (ts_calls s))"

definition logged :: "error + (transfer_summary \<times> log_level list) \<Rightarrow> log_level list" where
  "logged r = (case r of Inl e \<Rightarrow> [] | Inr (s, logs) \<Rightarrow> logs)"

definition tracer_depths :: "error + tracer_call list \<Rightarrow> int list" where
  "tracer_depths r = (case r of Inl e \<Rightarrow> [] | Inr calls \<Rightarrow> map tc_depth calls)"

section \<open>\<open>generate_description\<close>\<close>

text \<open>
  The UTF-8 bytes of a literal, in English: "After the proposal is started, first " (the
  caller follows).
\<close>

definition txt_start_by :: string where
  "txt_start_by = map char_of
    ([232, 175, 165, 230, 143, 144, 230, 161, 136, 229, 144, 175, 229, 138, 168, 229, 144,
     142, 239, 188, 140, 233, 166, 150, 229, 133, 136, 231, 148, 177, 32] :: nat list)"

text \<open>The UTF-8 bytes of a literal, in English: ") called " (after the caller's address).\<close>

definition txt_called :: string where
  "txt_called = map char_of
    ([41, 32, 232, 176, 131, 231, 148, 168, 228, 186, 134, 32] :: nat list)"

text \<open>The UTF-8 bytes of a literal, in English: the ideographic full stop.\<close>

definition txt_full_stop :: string where
  "txt_full_stop = map char_of
    ([227, 128, 130] :: nat list)"

text \<open>
  The UTF-8 bytes of a literal, in English: "address ", the label of a caller that is not
  a known contract.
\<close>

definition txt_address :: string where
  "txt_address = map char_of
    ([229, 156, 176, 229, 157, 128, 32] :: nat list)"

text \<open>
  The UTF-8 bytes of a literal, in English: "contract ", the label of a contract that is
  not known.
\<close>

definition txt_contract :: string where
  "txt_contract = map char_of
    ([229, 144, 136, 231, 186, 166, 32] :: nat list)"

text \<open>The UTF-8 bytes of a literal, in English: "times)", after the count of a function.\<close>

definition txt_times :: string where
  "txt_times = map char_of
    ([230, 172, 161, 41] :: nat list)"

text \<open>The UTF-8 bytes of a literal, in English: "The key function calls include:".\<close>

definition txt_key_functions :: string where
  "txt_key_functions = map char_of
    ([229, 133, 179, 233, 148, 174, 229, 135, 189, 230, 149, 176, 232, 176, 131, 231, 148,
     168, 229, 140, 133, 230, 139, 172, 239, 188, 154] :: nat list)"

text \<open>The UTF-8 bytes of a literal, in English: " times", after a count.\<close>

definition txt_type_times :: string where
  "txt_type_times = map char_of
    ([32, 230, 172, 161] :: nat list)"

text \<open>The UTF-8 bytes of a literal, in English: "The call types include:".\<close>

definition txt_call_types :: string where
  "txt_call_types = map char_of
    ([232, 176, 131, 231, 148, 168, 231, 177, 187, 229, 158, 139, 229, 140, 133, 230, 139,
     172, 239, 188, 154] :: nat list)"

text \<open>The UTF-8 bytes of a literal, in English: ", called functions:".\<close>

definition txt_called_functions :: string where
  "txt_called_functions = map char_of
    ([239, 188, 140, 232, 176, 131, 231, 148, 168, 229, 135, 189, 230, 149, 176, 239, 188,
     154] :: nat list)"

text \<open>
  The UTF-8 bytes of a literal, in English: "(called ", before the in-degree of a central
  node.
\<close>

definition txt_called_open :: string where
  "txt_called_open = map char_of
    ([239, 188, 136, 232, 162, 171, 232, 176, 131, 231, 148, 168, 32] :: nat list)"

text \<open>The UTF-8 bytes of a literal, in English: the closing fullwidth parenthesis.\<close>

definition txt_called_close :: string where
  "txt_called_close = map char_of
    ([239, 188, 137] :: nat list)"

text \<open>The UTF-8 bytes of a literal, in English: "The central nodes are:".\<close>

definition txt_central_nodes :: string where
  "txt_central_nodes = map char_of
    ([228, 184, 173, 229, 191, 131, 232, 138, 130, 231, 130, 185, 228, 184, 186, 239, 188,
     154] :: nat list)"

text \<open>The UTF-8 bytes of a literal, in English: "In total " (the number of nodes follows).\<close>

definition txt_involves :: string where
  "txt_involves = map char_of
    ([229, 133, 177, 230, 182, 137, 229, 143, 138, 32] :: nat list)"

text \<open>The UTF-8 bytes of a literal, in English: " nodes with " (the number of edges follows).\<close>

definition txt_nodes_of :: string where
  "txt_nodes_of = map char_of
    ([32, 228, 184, 170, 232, 138, 130, 231, 130, 185, 231, 154, 132, 32] :: nat list)"

text \<open>The UTF-8 bytes of a literal, in English: " interactions,".\<close>

definition txt_interactions :: string where
  "txt_interactions = map char_of
    ([32, 230, 172, 161, 228, 186, 164, 228, 186, 146, 239, 188, 140] :: nat list)"

text \<open>The UTF-8 bytes of a literal, in English: "the maximal depth of the graph is ".\<close>

definition txt_max_depth :: string where
  "txt_max_depth = map char_of
    ([229, 155, 190, 231, 154, 132, 230, 156, 128, 229, 164, 167, 230, 183, 177, 229, 186,
     166, 228, 184, 186, 32] :: nat list)"

text \<open>The UTF-8 bytes of a literal, in English: ", the maximal breadth is ".\<close>

definition txt_max_breadth :: string where
  "txt_max_breadth = map char_of
    ([239, 188, 140, 230, 156, 128, 229, 164, 167, 229, 174, 189, 229, 186, 166, 228, 184,
     186, 32] :: nat list)"

text \<open>
  The UTF-8 bytes of a literal, in English: " calls ", between the callee and the function
  of a path.
\<close>

definition txt_calls :: string where
  "txt_calls = map char_of
    ([32, 232, 176, 131, 231, 148, 168, 32] :: nat list)"

text \<open>The UTF-8 bytes of a literal, in English: " (depth ".\<close>

definition txt_depth_open :: string where
  "txt_depth_open = map char_of
    ([32, 40, 230, 183, 177, 229, 186, 166, 32] :: nat list)"

text \<open>The UTF-8 bytes of a literal, in English: "Key call paths:".\<close>

definition txt_key_paths :: string where
  "txt_key_paths = map char_of
    ([229, 133, 179, 233, 148, 174, 232, 176, 131, 231, 148, 168, 232, 183, 175, 229, 190,
     132, 239, 188, 154] :: nat list)"

text \<open>
  The UTF-8 bytes of a literal, in English: "The proposal uses the DELEGATECALL mechanism,
  involving ".
\<close>

definition txt_delegatecall_involving :: string where
  "txt_delegatecall_involving = map char_of
    ([232, 175, 165, 230, 143, 144, 230, 161, 136, 228, 189, 191, 231, 148, 168, 228, 186,
     134, 32, 68, 69, 76, 69, 71, 65, 84, 69, 67, 65, 76, 76, 32, 230, 156, 186, 229, 136,
     182, 239, 188, 140, 230, 182, 137, 229, 143, 138, 32] :: nat list)"

text \<open>The UTF-8 bytes of a literal, in English: the ideographic comma.\<close>

definition txt_comma :: string where
  "txt_comma = map char_of
    ([239, 188, 140] :: nat list)"

text \<open>
  The UTF-8 bytes of a literal, in English: "which shows a proxy pattern: the core logic
  reaches the implementation through delegated calls.".
\<close>

definition txt_proxy_tail :: string where
  "txt_proxy_tail = map char_of
    ([232, 161, 168, 230, 152, 142, 229, 173, 152, 229, 156, 168, 228, 187, 163, 231, 144,
     134, 229, 144, 136, 231, 186, 166, 230, 168, 161, 229, 188, 143, 239, 188, 140, 230,
     160, 184, 229, 191, 131, 233, 128, 187, 232, 190, 145, 233, 128, 154, 232, 191, 135,
     229, 167, 148, 230, 137, 152, 232, 176, 131, 231, 148, 168, 232, 167, 166, 232, 190,
     190, 229, 174, 158, 231, 142, 176, 229, 144, 136, 231, 186, 166, 227, 128, 130] :: nat list)"

text \<open>
  The UTF-8 bytes of a literal, in English: the DELEGATECALL sentence when no target is a
  known contract.
\<close>

definition txt_delegatecall_plain :: string where
  "txt_delegatecall_plain = map char_of
    ([232, 175, 165, 230, 143, 144, 230, 161, 136, 228, 189, 191, 231, 148, 168, 228, 186,
     134, 32, 68, 69, 76, 69, 71, 65, 84, 69, 67, 65, 76, 76, 32, 230, 156, 186, 229, 136,
     182, 239, 188, 140, 232, 161, 168, 230, 152, 142, 229, 173, 152, 229, 156, 168, 228,
     187, 163, 231, 144, 134, 229, 144, 136, 231, 186, 166, 230, 168, 161, 229, 188, 143,
     239, 188, 140, 230, 160, 184, 229, 191, 131, 233, 128, 187, 232, 190, 145, 233, 128,
     154, 232, 191, 135, 229, 167, 148, 230, 137, 152, 232, 176, 131, 231, 148, 168, 232,
     167, 166, 232, 190, 190, 229, 174, 158, 231, 142, 176, 229, 144, 136, 231, 186, 166,
     227, 128, 130] :: nat list)"

text \<open>
  The UTF-8 bytes of a literal, in English: "The proposal contains STATICCALL calls, which
  read contract state without changing chain data.".
\<close>

definition txt_staticcall :: string where
  "txt_staticcall = map char_of
    ([232, 175, 165, 230, 143, 144, 230, 161, 136, 229, 140, 133, 229, 144, 171, 32, 83, 84,
     65, 84, 73, 67, 67, 65, 76, 76, 32, 232, 176, 131, 231, 148, 168, 239, 188, 140, 231,
     148, 168, 228, 186, 142, 232, 175, 187, 229, 143, 150, 229, 144, 136, 231, 186, 166,
     231, 138, 182, 230, 128, 129, 232, 128, 140, 228, 184, 141, 228, 191, 174, 230, 148,
     185, 233, 147, 190, 228, 184, 138, 230, 149, 176, 230, 141, 174, 227, 128, 130] :: nat list)"

text \<open>
  The UTF-8 bytes of a literal, in English: the sentence on a standard governance flow
  (both execTransaction and propose occur).
\<close>

definition txt_flow_both :: string where
  "txt_flow_both = map char_of
    ([230, 137, 167, 232, 161, 140, 232, 189, 168, 232, 191, 185, 230, 152, 190, 231, 164,
     186, 232, 191, 153, 230, 152, 175, 230, 160, 135, 229, 135, 134, 231, 154, 132, 32,
     68, 65, 79, 32, 230, 178, 187, 231, 144, 134, 230, 181, 129, 231, 168, 139, 239, 188,
     154, 233, 128, 154, 232, 191, 135, 229, 164, 154, 231, 173, 190, 233, 146, 177, 229,
     140, 133, 239, 188, 136, 71, 110, 111, 115, 105, 115, 32, 83, 97, 102, 101, 239, 188,
     137, 230, 137, 167, 232, 161, 140, 228, 186, 164, 230, 152, 147, 239, 188, 140, 232,
     176, 131, 231, 148, 168, 32, 71, 111, 118, 101, 114, 110, 111, 114, 32, 229, 144, 136,
     231, 186, 166, 229, 136, 155, 229, 187, 186, 230, 143, 144, 230, 161, 136, 227, 128,
     130, 232, 191, 153, 230, 152, 175, 230, 143, 144, 230, 161, 136, 229, 136, 155, 229,
     187, 186, 233, 152, 182, 230, 174, 181, 239, 188, 140, 232, 128, 140, 233, 157, 158,
     230, 143, 144, 230, 161, 136, 230, 137, 167, 232, 161, 140, 233, 152, 182, 230, 174,
     181, 227, 128, 130] :: nat list)"

text \<open>
  The UTF-8 bytes of a literal, in English: the sentence on a multi-signature execution
  (only execTransaction occurs).
\<close>

definition txt_flow_exec :: string where
  "txt_flow_exec = map char_of
    ([230, 137, 167, 232, 161, 140, 232, 189, 168, 232, 191, 185, 229, 140, 133, 229, 144,
     171, 229, 164, 154, 231, 173, 190, 230, 137, 167, 232, 161, 140, 239, 188, 136, 101,
     120, 101, 99, 84, 114, 97, 110, 115, 97, 99, 116, 105, 111, 110, 239, 188, 137, 239,
     188, 140, 232, 161, 168, 230, 152, 142, 232, 191, 153, 230, 152, 175, 233, 128, 154,
     232, 191, 135, 229, 164, 154, 231, 173, 190, 233, 146, 177, 229, 140, 133, 229, 143,
     145, 232, 181, 183, 231, 154, 132, 230, 147, 141, 228, 189, 156, 227, 128, 130] :: nat list)"

text \<open>
  The UTF-8 bytes of a literal, in English: the sentence on the creation of a proposal
  (only propose occurs).
\<close>

definition txt_flow_propose :: string where
  "txt_flow_propose = map char_of
    ([230, 137, 167, 232, 161, 140, 232, 189, 168, 232, 191, 185, 229, 140, 133, 229, 144,
     171, 230, 143, 144, 230, 161, 136, 229, 136, 155, 229, 187, 186, 239, 188, 136, 112,
     114, 111, 112, 111, 115, 101, 239, 188, 137, 239, 188, 140, 232, 161, 168, 230, 152,
     142, 232, 191, 153, 230, 152, 175, 32, 68, 65, 79, 32, 230, 178, 187, 231, 144, 134,
     230, 143, 144, 230, 161, 136, 231, 154, 132, 229, 136, 155, 229, 187, 186, 230, 181,
     129, 231, 168, 139, 227, 128, 130] :: nat list)"

text \<open>\<open>sep.join(xs)\<close>\<close>

fun join :: "string \<Rightarrow> string list \<Rightarrow> string" where
  "join sep [] = []"
| "join sep [x] = x"
| "join sep (x # y # ys) = x @ sep @ join sep (y # ys)"

text \<open>\<open>p in s\<close> for strings: \<open>p\<close> occurs in \<open>s\<close>.\<close>

fun contains :: "string \<Rightarrow> string \<Rightarrow> bool" where
  "contains [] p = (p = [])"
| "contains (c # s) p = (startswith (c # s) p \<or> contains s p)"

text \<open>\<open>func.split("(")[0] if "(" in func else func\<close>\<close>

definition function_name :: "string \<Rightarrow> string" where
  "function_name func = takeWhile (\<lambda>c. c \<noteq> CHR ''('') func"

text \<open>The table \<open>FUNCTION_PATTERNS\<close>, in source order.\<close>

definition FUNCTION_PATTERNS :: "(string \<times> string) list" where
  "FUNCTION_PATTERNS =
    [(''execTransaction'', ''Gnosis Safe: Multi-sig execution''),
     (''propose'', ''Governor: Proposal creation''),
     (''execute'', ''Governor: Proposal execution''),
     (''castVote'', ''Governor: Voting''),
     (''getPastVotes'', ''Governor: Vote weight query''),
     (''delegate'', ''Governor: Delegation''),
     (''upgradeTo'', ''Proxy: Upgrade''),
     (''upgradeToAndCall'', ''Proxy: Upgrade and call'')]"

definition identify_function_semantic :: "string \<Rightarrow> string option" where
  "identify_function_semantic function_signature =
     (if function_signature = [] \<or> function_signature = ''unknown'' then None
      else
        let func_name = function_name function_signature in
        map_option snd
          (find (\<lambda>entry. contains (lower func_name) (lower (fst entry))) FUNCTION_PATTERNS))"

text \<open>A \<open>Counter\<close> is a dictionary: \<open>counter[k] += 1\<close> keeps the place of a known key.\<close>

definition counter_incr :: "'a \<Rightarrow> ('a \<times> int) list \<Rightarrow> ('a \<times> int) list" where
  "counter_incr k counter = AList.update k (or_default (map_of counter k) 0 + 1) counter"

text \<open>
  A Python set of strings is kept as the list of its elements in the order they were
  added.  The order in which the set is iterated depends on the hash values of the
  strings, which change with the hash seed of the process: the model takes it as a
  parameter \<open>set_iter\<close>, the function from the elements as added to the elements as
  iterated.
\<close>

definition set_add :: "'a \<Rightarrow> 'a list \<Rightarrow> 'a list" where
  "set_add x xs = (if x \<in> set xs then xs else xs @ [x])"

text \<open>\<open>address_functions[to].add(name)\<close> on a \<open>defaultdict(set)\<close>\<close>

definition record_function ::
  "string \<Rightarrow> string \<Rightarrow> (string \<times> string list) list \<Rightarrow> (string \<times> string list) list" where
  "record_function to_addr name address_functions =
     AList.update to_addr (set_add name (or_default (map_of address_functions to_addr) []))
       address_functions"

text \<open>The body of the loop that fills \<open>function_calls\<close> and \<open>address_functions\<close>.\<close>

definition count_call ::
  "(string \<times> int) list \<times> (string \<times> string list) list \<Rightarrow> call
     \<Rightarrow> (string \<times> int) list \<times> (string \<times> string list) list" where
  "count_call acc c =
     (case acc of (function_calls, address_functions) \<Rightarrow>
      let func = call_function c in
      if func \<noteq> [] \<and> func \<noteq> ''unknown'' then
        let func_name = function_name func;
            to_addr_call = call_to_lower c
        in (counter_incr func_name function_calls,
            if to_addr_call \<noteq> [] then record_function to_addr_call func_name address_functions
            else address_functions)
      else (function_calls, address_functions))"

text \<open>Truthiness of an object with the keys \<open>from\<close> and \<open>to\<close>; of an optional name.\<close>

definition tx_truthy :: "tx_info option \<Rightarrow> tx_info option" where
  "tx_truthy t =
     (case t of
        None \<Rightarrow> None
      | Some i \<Rightarrow> if tx_from i \<noteq> None \<or> tx_to i \<noteq> None \<or> tx_other_keys i then Some i else None)"

definition name_truthy :: "string option \<Rightarrow> string option" where
  "name_truthy n = (case n of None \<Rightarrow> None | Some s \<Rightarrow> if s = [] then None else Some s)"

text \<open>The \<open>from\<close> and \<open>to\<close> of the opening sentence.\<close>

definition initial_call :: "trace_doc \<Rightarrow> string \<times> string" where
  "initial_call d =
     (case tx_truthy (d_original_transaction d) of
        Some original_tx \<Rightarrow>
          (or_default (tx_from original_tx) ''unknown'', or_default (tx_to original_tx) ''unknown'')
      | None \<Rightarrow>
          (case tx_truthy (d_trace d) of
             Some trace_info \<Rightarrow>
               (or_default (tx_from trace_info) ''unknown'',
                or_default (tx_to trace_info) ''unknown'')
           | None \<Rightarrow>
               (case summary_calls (doc_summary d) of
                  first_call # rest \<Rightarrow>
                    (or_default (c_from first_call) ''unknown'',
                     or_default (c_to first_call) ''unknown'')
                | [] \<Rightarrow> (''unknown'', ''unknown''))))"

text \<open>
  \<open>graph.edges(data=True)\<close>: by source node in node order, then by successor in the order
  of \<open>successors\<close>, then the parallel edges in the order they were added.
\<close>

definition edges_view :: "graph \<Rightarrow> edge list" where
  "edges_view g =
     concat (map (\<lambda>u. concat (map (\<lambda>v. filter (\<lambda>e. fst e = u \<and> fst (snd e) = v) (g_edges g))
                                  (successors g u)))
                 (g_nodes g))"

definition call_type_counter :: "graph \<Rightarrow> (string \<times> int) list" where
  "call_type_counter g =
     foldl (\<lambda>call_types e. counter_incr (e_type (snd (snd e))) call_types) [] (edges_view g)"

definition describe_function :: "string \<times> int \<Rightarrow> string" where
  "describe_function entry =
     (case entry of (func_name, count) \<Rightarrow>
      (case name_truthy (identify_function_semantic func_name) of
         Some func_semantic \<Rightarrow>
           func_name @ '' ('' @ func_semantic @ '', '' @ str_int count @ txt_times
       | None \<Rightarrow> func_name @ '' ('' @ str_int count @ txt_times))"

definition describe_central ::
  "(string list \<Rightarrow> string list) \<Rightarrow> (string \<times> string list) list \<Rightarrow> string \<times> int \<Rightarrow> string" where
  "describe_central set_iter address_functions entry =
     (case entry of (node, count) \<Rightarrow>
      let funcs = or_default (map_of address_functions (lower node)) [];
          func_info = (if funcs \<noteq> [] then
                         txt_called_functions @ join '', '' (take 3 (set_iter funcs))
                       else [])
      in
      (case name_truthy (identify_contract node) of
         Some contract_name \<Rightarrow>
           contract_name @ '' ('' @ node @ '')'' @ txt_called_open @ str_int count
             @ txt_type_times @ func_info @ txt_called_close
       | None \<Rightarrow>
           let short_addr = (if length node > 18
                             then take 10 node @ ''...'' @ drop (length node - 8) node
                             else node)
           in txt_contract @ short_addr @ '' ('' @ node @ '')'' @ txt_called_open
                @ str_int count @ txt_type_times @ func_info @ txt_called_close))"

text \<open>
  \<open>extract_call_paths\<close>, under the two conditions \<open>generate_description\<close> has
  established (graph and document present).
\<close>

definition extract_call_paths :: "call list \<Rightarrow> int \<Rightarrow> call list list" where
  "extract_call_paths calls max_paths =
     (let depth_of = (\<lambda>c. or_default (c_depth c) 0);
          deepest = (case map depth_of calls of
                       [] \<Rightarrow> []
                     | d # ds \<Rightarrow>
                         [take 3 (filter (\<lambda>c. depth_of c = foldl max d ds) calls)]);
          important_functions = [''execTransaction'', ''propose'', ''execute'', ''upgradeTo''];
          paths = foldl (\<lambda>paths c.
                     if list_ex (contains (or_default (c_function_signature c) []))
                          important_functions
                        \<and> int (length paths) < max_paths
                     then paths @ [[c]] else paths)
                   deepest calls
      in take (nat max_paths) paths)"

definition describe_path :: "call \<Rightarrow> string" where
  "describe_path first_call =
     (let from_p = take 10 (or_default (c_from first_call) []) @ ''...'';
          to_p = take 10 (or_default (c_to first_call) []) @ ''...'';
          func_p = or_default (c_function_signature first_call) ''unknown'';
          func_name_p = function_name func_p;
          depth_p = or_default (c_depth first_call) 0;
          to_desc_p = or_default (name_truthy (identify_contract (or_default (c_to first_call) [])))
                        to_p
      in from_p @ '' -> '' @ to_desc_p @ txt_calls @ func_name_p @ txt_depth_open
           @ str_int depth_p @ '')'')"

text \<open>
  The entries of \<open>description_parts\<close>, each as the list of what its block appends
  (nothing or one sentence), in the order of the source.
\<close>

definition part_start :: "trace_doc \<Rightarrow> string list" where
  "part_start d =
     (let from_addr = fst (initial_call d);
          to_addr = snd (initial_call d);
          from_desc = or_default (name_truthy (identify_contract from_addr))
                        (txt_address @ from_addr);
          to_desc = or_default (name_truthy (identify_contract to_addr))
                      (txt_contract @ to_addr)
      in [txt_start_by @ from_desc @ '' ('' @ from_addr @ txt_called @ to_desc
            @ '' ('' @ to_addr @ '')'' @ txt_full_stop])"

definition part_functions :: "(string \<times> int) list \<Rightarrow> string list" where
  "part_functions function_calls =
     (let important_functions = map describe_function (most_common 5 function_calls)
      in if function_calls \<noteq> [] \<and> important_functions \<noteq> [] then
           [txt_key_functions @ join '', '' important_functions @ txt_full_stop]
         else [])"

definition part_types :: "(string \<times> int) list \<Rightarrow> string list" where
  "part_types call_types =
     (if call_types \<noteq> [] then
        [txt_call_types
           @ join '', '' (map (\<lambda>entry. fst entry @ '' '' @ str_int (snd entry) @ txt_type_times)
                            call_types)
           @ txt_full_stop]
      else [])"

definition part_central ::
  "(string list \<Rightarrow> string list) \<Rightarrow> (string \<times> string list) list \<Rightarrow> (string \<times> int) list
     \<Rightarrow> string list" where
  "part_central set_iter address_functions central_nodes =
     (if central_nodes \<noteq> [] then
        [txt_central_nodes
           @ join '', '' (map (describe_central set_iter address_functions) central_nodes)
           @ txt_full_stop]
      else [])"

definition part_structure :: "graph \<Rightarrow> int \<Rightarrow> int \<Rightarrow> string list" where
  "part_structure g depth breadth =
     [txt_involves @ str_int (number_of_nodes g) @ txt_nodes_of @ str_int (number_of_edges g)
        @ txt_interactions @ txt_max_depth @ str_int depth @ txt_max_breadth
        @ str_int breadth @ txt_full_stop]"

definition part_paths :: "call list \<Rightarrow> string list" where
  "part_paths calls =
     (let call_paths = extract_call_paths calls 2;
          path_descriptions = map (\<lambda>path. describe_path (hd path))
                                (filter (\<lambda>path. path \<noteq> []) call_paths)
      in if call_paths \<noteq> [] \<and> path_descriptions \<noteq> [] then
           [txt_key_paths @ join ''; '' path_descriptions @ txt_full_stop]
         else [])"

definition part_delegatecall ::
  "(string list \<Rightarrow> string list) \<Rightarrow> (string \<times> int) list \<Rightarrow> call list \<Rightarrow> string list" where
  "part_delegatecall set_iter call_types calls =
     (if ''DELEGATECALL'' \<in> fst ` set call_types then
        let delegatecall_info =
              concat (map (\<lambda>c. if c_type c = Some ''DELEGATECALL'' then
                                  case name_truthy (identify_contract (or_default (c_to c) [])) of
                                    Some contract_dc \<Rightarrow> [contract_dc]
                                  | None \<Rightarrow> []
                                else []) calls)
        in if delegatecall_info \<noteq> [] then
             [txt_delegatecall_involving @ join '', '' (set_iter (dedup delegatecall_info))
                @ txt_comma @ txt_proxy_tail]
           else [txt_delegatecall_plain]
      else [])"

definition part_staticcall :: "(string \<times> int) list \<Rightarrow> string list" where
  "part_staticcall call_types =
     (if ''STATICCALL'' \<in> fst ` set call_types then [txt_staticcall] else [])"

definition part_flow :: "call list \<Rightarrow> string list" where
  "part_flow calls =
     (let has_exec_transaction =
            list_ex (\<lambda>c. contains (or_default (c_function_signature c) []) ''execTransaction'')
              calls;
          has_propose =
            list_ex (\<lambda>c. contains (lower (or_default (c_function_signature c) [])) ''propose'')
              calls
      in if has_exec_transaction \<and> has_propose then [txt_flow_both]
         else if has_exec_transaction then [txt_flow_exec]
         else if has_propose then [txt_flow_propose]
         else [])"

text \<open>The text, once graph, document and metrics are at hand.\<close>

definition describe ::
  "(string list \<Rightarrow> string list) \<Rightarrow> graph \<Rightarrow> trace_doc \<Rightarrow> int \<Rightarrow> int \<Rightarrow> (string \<times> int) list
     \<Rightarrow> string" where
  "describe set_iter g d depth breadth central_nodes =
     (let calls = summary_calls (doc_summary d);
          counted = foldl count_call ([], []) calls;
          function_calls = fst counted;
          address_functions = snd counted;
          call_types = call_type_counter g
      in join '' ''
           (part_start d @ part_functions function_calls @ part_types call_types
              @ part_central set_iter address_functions central_nodes
              @ part_structure g depth breadth @ part_paths calls
              @ part_delegatecall set_iter call_types calls @ part_staticcall call_types
              @ part_flow calls))"

text \<open>
  \<open>generate_description\<close>.  \<open>None\<close> is a run in which one of the two metric loops does not
  return; \<open>Inl\<close> is the exception raised.
\<close>

definition generate_description ::
  "(string list \<Rightarrow> string list) \<Rightarrow> builder \<Rightarrow> (error + (string \<times> builder)) option" where
  "generate_description set_iter b =
     (case graph b of
        None \<Rightarrow> Some (Inl ValueError)
      | Some g \<Rightarrow>
          (case (case trace_data b of
                   None \<Rightarrow> load_trace_report b
                 | Some d \<Rightarrow> Inr (d, b)) of
             Inl e \<Rightarrow> Some (Inl e)
           | Inr (d, b1) \<Rightarrow>
               (case calculate_graph_depth b1 of
                  None \<Rightarrow> None
                | Some (Inl e) \<Rightarrow> Some (Inl e)
                | Some (Inr depth) \<Rightarrow>
                    (case calculate_graph_breadth b1 of
                       None \<Rightarrow> None
                     | Some (Inl e) \<Rightarrow> Some (Inl e)
                     | Some (Inr breadth) \<Rightarrow>
                         (case identify_central_nodes b1 5 of
                            Inl e \<Rightarrow> Some (Inl e)
                          | Inr central_nodes \<Rightarrow>
                              Some (Inr (describe set_iter g d depth breadth
                                           central_nodes, b1)))))))"

text \<open>Sample inputs with a call kind and a function signature.\<close>

definition sig_call :: "string \<Rightarrow> string \<Rightarrow> string \<Rightarrow> string \<Rightarrow> call" where
  "sig_call a b t f =
     \<lparr>c_from = Some a, c_to = Some b, c_type = Some t, c_function_signature = Some f,
      c_function_selector = None, c_value = None, c_depth = Some 1\<rparr>"

definition built :: "call list \<Rightarrow> builder" where
  "built cs = \<lparr>trace_report = Some (doc_of_calls cs), graph = Some (build_calls cs),
      trace_data = Some (doc_of_calls cs)\<rparr>"

text \<open>The text of a successful run (empty otherwise).\<close>

definition description_text :: "(error + (string \<times> builder)) option \<Rightarrow> string" where
  "description_text r = (case r of Some (Inr (s, b)) \<Rightarrow> s | _ \<Rightarrow> [])"

text \<open>Two calls to one contract, with two different functions.\<close>

definition two_functions :: "call list" where
  "two_functions =
     [sig_call ''0xaa'' ''0xbb'' ''CALL'' ''foo(uint256)'',
      sig_call ''0xaa'' ''0xbb'' ''CALL'' ''bar()'']"

chapter \<open>Properties\<close>

section \<open>Building the graph\<close>

lemma lower_eq_Nil [simp]: "(lower s = []) = (s = [])"
  by (simp add: lower_def)

lemma valid_call_lower:
  "valid_call c \<Longrightarrow> call_from_lower c \<noteq> [] \<and> call_to_lower c \<noteq> []"
  by (auto simp: valid_call_def call_from_lower_def call_to_lower_def)

lemma add_node_nodes: "set (g_nodes (add_node n g)) = insert n (set (g_nodes g))"
  by (auto simp: add_node_def)

lemma add_node_distinct: "distinct (g_nodes g) \<Longrightarrow> distinct (g_nodes (add_node n g))"
  by (simp add: add_node_def)

lemma add_node_edges: "g_edges (add_node n g) = g_edges g"
  by (simp add: add_node_def)

lemma add_call_valid:
  assumes "valid_call c"
  shows "g_edges (add_call g c) = g_edges g @ [call_edge c]"
    and "set (g_nodes (add_call g c)) = set (g_nodes g) \<union> {call_from_lower c, call_to_lower c}"
    and "distinct (g_nodes g) \<Longrightarrow> distinct (g_nodes (add_call g c))"
  using valid_call_lower[OF assms]
  by (auto simp: add_call_def Let_def add_edge_def add_node_nodes add_node_edges
      add_node_distinct has_node_def call_edge_def)

lemma foldl_add_call_valid:
  assumes "\<forall>c\<in>set cs. valid_call c"
  shows "g_edges (foldl add_call g cs) = g_edges g @ map call_edge cs
       \<and> set (g_nodes (foldl add_call g cs))
           = set (g_nodes g) \<union> call_from_lower ` set cs \<union> call_to_lower ` set cs
       \<and> (distinct (g_nodes g) \<longrightarrow> distinct (g_nodes (foldl add_call g cs)))"
  using assms
proof (induction cs arbitrary: g)
  case Nil
  then show ?case by simp
next
  case (Cons c cs)
  have v: "valid_call c" using Cons.prems by simp
  have r: "\<forall>c\<in>set cs. valid_call c" using Cons.prems by simp
  show ?case
    using Cons.IH[OF r, of "add_call g c"] add_call_valid[OF v, of g]
    by auto
qed

lemma build_calls_valid:
  assumes "\<forall>c\<in>set cs. valid_call c"
  shows "g_edges (build_calls cs) = map call_edge cs"
    and "set (g_nodes (build_calls cs)) = call_from_lower ` set cs \<union> call_to_lower ` set cs"
    and "distinct (g_nodes (build_calls cs))"
  using foldl_add_call_valid[OF assms, of empty_graph]
  by (auto simp: build_calls_def empty_graph_def)

lemma build_graph_loaded:
  assumes "loaded b d"
  shows "build_graph b =
     Inr (build_calls (summary_calls (doc_summary d)),
          b\<lparr>trace_data := Some d, graph := Some (build_calls (summary_calls (doc_summary d)))\<rparr>)"
  using assms
  by (auto simp: loaded_def build_graph_def load_trace_report_def get_trace_summary_def Let_def
      build_calls_def)

text \<open>
  C1.  When every one of the \<open>N\<close> call entries has a non-empty \<open>from\<close> and a non-empty
  \<open>to\<close>, \<open>build_graph\<close> returns a graph with one edge per entry, in the order of the
  entries and none merged (so \<open>N\<close> edges), and its nodes are, without repetition, exactly
  the lowercased \<open>from\<close> and \<open>to\<close> addresses of the entries (so as many nodes as there are
  distinct such addresses).
\<close>

theorem build_graph_nodes_edges:
  assumes "loaded b d" and "summary_calls (doc_summary d) = cs"
    and "\<forall>c\<in>set cs. valid_call c"
  shows "\<exists>g b'. build_graph b = Inr (g, b') \<and> graph b' = Some g
           \<and> g_edges g = map call_edge cs
           \<and> number_of_edges g = int (length cs)
           \<and> distinct (g_nodes g)
           \<and> set (g_nodes g) = call_from_lower ` set cs \<union> call_to_lower ` set cs
           \<and> number_of_nodes g = int (card (call_from_lower ` set cs \<union> call_to_lower ` set cs))"
proof -
  let ?g = "build_calls cs"
  have "number_of_nodes ?g = int (card (set (g_nodes ?g)))"
    using build_calls_valid(3)[OF assms(3)] by (simp add: number_of_nodes_def distinct_card)
  then show ?thesis
    using build_graph_loaded[OF assms(1)] assms(2) build_calls_valid[OF assms(3)]
    by (simp add: number_of_edges_def)
qed

theorem build_graph_nodes_edges_witness:
  "\<exists>g b'. build_graph (init (Some (doc_of_calls
       [mk_call ''0xAA'' ''0xBb'', mk_call ''0xaa'' ''0xbb'', mk_call ''0xbb'' ''0xCC''])))
       = Inr (g, b')
     \<and> number_of_edges g = 3 \<and> number_of_nodes g = 3
     \<and> g_nodes g = [''0xaa'', ''0xbb'', ''0xcc'']"
proof -
  let ?cs = "[mk_call ''0xAA'' ''0xBb'', mk_call ''0xaa'' ''0xbb'', mk_call ''0xbb'' ''0xCC'']"
  let ?d = "doc_of_calls ?cs"
  have 1: "loaded (init (Some ?d)) ?d" by (simp add: loaded_def init_def)
  have 2: "summary_calls (doc_summary ?d) = ?cs"
    by (simp add: summary_calls_def doc_summary_def doc_of_calls_def summary_truthy_def)
  have 3: "\<forall>c\<in>set ?cs. valid_call c" by (simp add: valid_call_def mk_call_def)
  have 4: "build_graph (init (Some ?d)) =
      Inr (build_calls ?cs,
           init (Some ?d)\<lparr>trace_data := Some ?d, graph := Some (build_calls ?cs)\<rparr>)"
    using build_graph_loaded[OF 1] 2 by simp
  have 5: "g_nodes (build_calls ?cs) = [''0xaa'', ''0xbb'', ''0xcc'']" by code_simp
  from build_graph_nodes_edges[OF 1 2 3] 4 5 show ?thesis
    by (auto simp: number_of_nodes_def)
qed

section \<open>Central nodes\<close>

lemma sorted_wrt_first_index:
  "distinct xs \<Longrightarrow> sorted_wrt (\<lambda>a b. first_index xs a < first_index xs b) xs"
proof (induction xs)
  case Nil
  then show ?case by simp
next
  case (Cons x xs)
  have "sorted_wrt (\<lambda>a b. first_index xs a < first_index xs b) xs"
    using Cons by simp
  then have "sorted_wrt (\<lambda>a b. first_index (x # xs) a < first_index (x # xs) b) xs"
    using Cons.prems
    by (auto simp: first_index_def elim!: sorted_wrt_mono_rel[rotated])
  moreover have "\<forall>y\<in>set xs. first_index (x # xs) x < first_index (x # xs) y"
    using Cons.prems by (auto simp: first_index_def)
  ultimately show ?case by simp
qed

lemma insort_key_lex:
  assumes "sorted_wrt (\<lambda>p q. f p < f q \<or> (f p = f q \<and> B p q)) ys"
    and "\<forall>y\<in>set ys. B x y"
  shows "sorted_wrt (\<lambda>p q. f p < f q \<or> (f p = f q \<and> B p q)) (insort_key f x ys)"
  using assms
proof (induction ys)
  case Nil
  then show ?case by simp
next
  case (Cons y ys)
  show ?case
  proof (cases "f x \<le> f y")
    case True
    have "\<forall>z\<in>set ys. f y \<le> f z" using Cons.prems(1) by auto
    then have "\<forall>z\<in>set (y # ys). f x < f z \<or> (f x = f z \<and> B x z)"
      using True Cons.prems(2) by fastforce
    then show ?thesis using True Cons.prems(1) by simp
  next
    case False
    have "sorted_wrt (\<lambda>p q. f p < f q \<or> (f p = f q \<and> B p q)) (insort_key f x ys)"
      using Cons by simp
    moreover have "\<forall>z\<in>set (insort_key f x ys). f y < f z \<or> (f y = f z \<and> B y z)"
      using False Cons.prems(1) by (auto simp: set_insort_key)
    ultimately show ?thesis using False by simp
  qed
qed

lemma sort_key_lex:
  fixes f :: "'a \<Rightarrow> int"
  assumes "sorted_wrt B xs"
  shows "sorted_wrt (\<lambda>p q. f p < f q \<or> (f p = f q \<and> B p q)) (sort_key f xs)"
  using assms
proof (induction xs)
  case Nil
  then show ?case by simp
next
  case (Cons x xs)
  have "sorted_wrt (\<lambda>p q. f p < f q \<or> (f p = f q \<and> B p q)) (sort_key f xs)"
    using Cons by simp
  moreover have "\<forall>y\<in>set (sort_key f xs). B x y" using Cons.prems by simp
  ultimately show ?case by (simp add: insort_key_lex)
qed

lemma sorted_wrt_take: "sorted_wrt R xs \<Longrightarrow> sorted_wrt R (take n xs)"
  by (metis append_take_drop_id sorted_wrt_append)

lemma in_degree_counter_sorted:
  assumes "distinct (g_nodes g)"
  shows "sorted_wrt (\<lambda>p q. first_index (g_nodes g) (fst p) < first_index (g_nodes g) (fst q))
           (in_degree_counter g)"
  unfolding in_degree_counter_def
  by (simp add: sorted_wrt_map sorted_wrt_filter sorted_wrt_first_index[OF assms])

lemma most_common_ranked:
  assumes "distinct (g_nodes g)"
  shows "sorted_wrt (ranked_before g) (most_common k (in_degree_counter g))"
proof -
  have "sorted_wrt (\<lambda>p q. - snd p < - snd q \<or> (- snd p = - snd q \<and>
            first_index (g_nodes g) (fst p) < first_index (g_nodes g) (fst q)))
          (sort_key (\<lambda>p. - snd p) (in_degree_counter g))"
    by (rule sort_key_lex[OF in_degree_counter_sorted[OF assms]])
  then have "sorted_wrt (ranked_before g) (sort_key (\<lambda>p. - snd p) (in_degree_counter g))"
    by (simp add: ranked_before_def[abs_def])
  then show ?thesis unfolding most_common_def by (rule sorted_wrt_take)
qed

lemma most_common_subset: "set (most_common k items) \<subseteq> set items"
  unfolding most_common_def by (metis set_sort set_take_subset)

lemma most_common_length: "length (most_common k items) = min (nat k) (length items)"
  unfolding most_common_def by simp

lemma in_degree_counter_set:
  "set (in_degree_counter g) = {(n, in_degree g n) | n. n \<in> set (g_nodes g) \<and> in_degree g n > 0}"
  unfolding in_degree_counter_def by auto

lemma add_call_distinct: "distinct (g_nodes g) \<Longrightarrow> distinct (g_nodes (add_call g c))"
  by (auto simp: add_call_def Let_def add_edge_def add_node_def has_node_def)

lemma foldl_add_call_distinct:
  "distinct (g_nodes g) \<Longrightarrow> distinct (g_nodes (foldl add_call g cs))"
  by (induction cs arbitrary: g) (simp_all add: add_call_distinct)

lemma build_calls_distinct: "distinct (g_nodes (build_calls cs))"
  unfolding build_calls_def by (rule foldl_add_call_distinct) (simp add: empty_graph_def)

lemma build_graph_result:
  assumes "build_graph b0 = Inr (g, b)"
  shows "graph b = Some g \<and> (\<exists>cs. g = build_calls cs)"
proof -
  have e: "empty_graph = build_calls []" by (simp add: build_calls_def)
  show ?thesis
    using assms
    by (auto simp: build_graph_def load_trace_report_def get_trace_summary_def Let_def
        split: option.splits sum.splits if_splits prod.splits intro: e)
qed

text \<open>
  C5.  On a built graph \<open>identify_central_nodes\<close> returns pairs of a node and its
  in-degree, every in-degree positive, ordered by descending in-degree and, among equal
  in-degrees, by the order in which the nodes entered the graph; it returns the first
  \<open>top_k\<close> of the nodes of positive in-degree in that order.  The result is a function of
  the graph and \<open>top_k\<close> alone, so the same input gives the same ordering.
\<close>

theorem identify_central_nodes_ranking:
  assumes "build_graph b0 = Inr (g, b)"
  shows "\<exists>r. identify_central_nodes b top_k = Inr r
           \<and> sorted_wrt (ranked_before g) r
           \<and> (\<forall>p\<in>set r. fst p \<in> set (g_nodes g) \<and> snd p = in_degree g (fst p) \<and> 0 < snd p)
           \<and> length r = min (nat top_k) (length (filter (\<lambda>n. 0 < in_degree g n) (g_nodes g)))"
proof -
  from build_graph_result[OF assms] obtain cs where g: "graph b = Some g" "g = build_calls cs"
    by blast
  have d: "distinct (g_nodes g)" using g(2) build_calls_distinct by simp
  let ?r = "most_common top_k (in_degree_counter g)"
  have "identify_central_nodes b top_k = Inr ?r"
    by (simp add: identify_central_nodes_def g(1))
  moreover have "sorted_wrt (ranked_before g) ?r" by (rule most_common_ranked[OF d])
  moreover have "\<forall>p\<in>set ?r. fst p \<in> set (g_nodes g) \<and> snd p = in_degree g (fst p) \<and> 0 < snd p"
    using most_common_subset[of top_k "in_degree_counter g"] in_degree_counter_set[of g]
    by auto
  moreover have "length ?r = min (nat top_k) (length (filter (\<lambda>n. 0 < in_degree g n) (g_nodes g)))"
    by (simp add: most_common_length in_degree_counter_def)
  ultimately show ?thesis by blast
qed

theorem identify_central_nodes_ranking_witness:
  "\<exists>r. identify_central_nodes
         (init (Some (doc_of_calls [mk_call ''a'' ''b'', mk_call ''a'' ''c'', mk_call ''b'' ''c'',
              mk_call ''c'' ''b'', mk_call ''c'' ''d'']))
          \<lparr>trace_data := Some (doc_of_calls [mk_call ''a'' ''b'', mk_call ''a'' ''c'',
              mk_call ''b'' ''c'', mk_call ''c'' ''b'', mk_call ''c'' ''d'']),
           graph := Some (build_calls [mk_call ''a'' ''b'', mk_call ''a'' ''c'',
              mk_call ''b'' ''c'', mk_call ''c'' ''b'', mk_call ''c'' ''d''])\<rparr>) 5 = Inr r
       \<and> r = [(''b'', 2), (''c'', 2), (''d'', 1)]
       \<and> sorted_wrt (ranked_before (build_calls [mk_call ''a'' ''b'', mk_call ''a'' ''c'',
              mk_call ''b'' ''c'', mk_call ''c'' ''b'', mk_call ''c'' ''d''])) r"
proof -
  let ?cs = "[mk_call ''a'' ''b'', mk_call ''a'' ''c'', mk_call ''b'' ''c'',
              mk_call ''c'' ''b'', mk_call ''c'' ''d'']"
  let ?d = "doc_of_calls ?cs"
  let ?b = "init (Some ?d)\<lparr>trace_data := Some ?d, graph := Some (build_calls ?cs)\<rparr>"
  have 1: "loaded (init (Some ?d)) ?d" by (simp add: loaded_def init_def)
  have 2: "summary_calls (doc_summary ?d) = ?cs"
    by (simp add: summary_calls_def doc_summary_def doc_of_calls_def summary_truthy_def)
  have 3: "build_graph (init (Some ?d)) = Inr (build_calls ?cs, ?b)"
    using build_graph_loaded[OF 1] 2 by simp
  have 4: "identify_central_nodes ?b 5 = Inr [(''b'', 2), (''c'', 2), (''d'', 1)]"
    by code_simp
  from identify_central_nodes_ranking[OF 3, of 5] 4 show ?thesis by auto
qed

section \<open>Termination of the depth and breadth loops\<close>

lemma finite_targets [simp]: "finite (targets g)"
  by (simp add: targets_def)

lemma set_dedup [simp]: "set (dedup xs) = set xs"
proof (induction xs rule: dedup.induct)
  case 1
  then show ?case by simp
next
  case (2 x xs)
  then show ?case by auto
qed

lemma distinct_dedup [simp]: "distinct (dedup xs)"
proof (induction xs rule: dedup.induct)
  case 1
  then show ?case by simp
next
  case (2 x xs)
  then show ?case by auto
qed

lemma successors_targets: "set (successors g n) \<subseteq> targets g"
  by (auto simp: successors_def targets_def)

text \<open>What the relaxation of the successors does to the queue.\<close>

lemma relax_queue:
  "\<exists>added. snd (foldl (relax cur cd vis) (depths, queue) succs) = queue @ added
       \<and> set added \<subseteq> set succs - vis"
proof (induction succs arbitrary: depths queue)
  case Nil
  then show ?case by simp
next
  case (Cons x xs)
  obtain depths' queue' where r: "relax cur cd vis (depths, queue) x = (depths', queue')"
    by (cases "relax cur cd vis (depths, queue) x")
  then have q: "queue' = queue \<or> (queue' = queue @ [x] \<and> x \<notin> vis)"
    by (auto simp: relax_def Let_def split: if_splits)
  from Cons.IH[of depths' queue'] obtain added where
    a: "snd (foldl (relax cur cd vis) (depths', queue') xs) = queue' @ added"
      "set added \<subseteq> set xs - vis" by blast
  from q show ?case
  proof
    assume "queue' = queue"
    then show ?thesis using a r by (intro exI[of _ added]) auto
  next
    assume "queue' = queue @ [x] \<and> x \<notin> vis"
    then show ?thesis using a r by (intro exI[of _ "x # added"]) auto
  qed
qed

lemma depth_step_decreases:
  assumes q: "d_queue s = cur # rest"
    and acc: "acc = foldl (relax cur cd (insert cur (d_visited s))) (d_depths s, rest)
                      (successors g cur)"
  shows "(depth_measure g \<lparr>d_queue = snd acc, d_depths = fst acc,
              d_visited = insert cur (d_visited s), d_max = m\<rparr>, depth_measure g s)
           \<in> less_than <*lex*> less_than"
proof -
  let ?vis = "d_visited s"
  from relax_queue[of cur cd "insert cur ?vis" "d_depths s" rest "successors g cur"] acc
  obtain added where a: "snd acc = rest @ added"
    "set added \<subseteq> set (successors g cur) - insert cur ?vis" by blast
  have sub: "set added \<subseteq> targets g" using a(2) successors_targets[of g cur] by blast
  have fin: "finite ((set (cur # rest) \<union> targets g) - ?vis)" by simp
  show ?thesis
  proof (cases "cur \<in> ?vis")
    case False
    have "(set (rest @ added) \<union> targets g) - insert cur ?vis
            \<subset> (set (cur # rest) \<union> targets g) - ?vis"
      using False sub by auto
    then have "card ((set (rest @ added) \<union> targets g) - insert cur ?vis)
            < card ((set (cur # rest) \<union> targets g) - ?vis)"
      using fin by (intro psubset_card_mono) auto
    then show ?thesis by (simp add: depth_measure_def q a(1))
  next
    case True
    then have iv: "insert cur ?vis = ?vis" by auto
    have "(set (rest @ added) \<union> targets g) - ?vis \<subseteq> (set (cur # rest) \<union> targets g) - ?vis"
      using sub by auto
    then have c: "card ((set (rest @ added) \<union> targets g) - ?vis)
            \<le> card ((set (cur # rest) \<union> targets g) - ?vis)"
      using fin by (intro card_mono) auto
    have "filter (\<lambda>n. n \<in> ?vis) added = []"
      using a(2) by (auto simp: filter_empty_conv)
    then have "length (filter (\<lambda>n. n \<in> ?vis) (rest @ added))
            < length (filter (\<lambda>n. n \<in> ?vis) (cur # rest))"
      using True by simp
    then show ?thesis using c by (auto simp: depth_measure_def q a(1) iv)
  qed
qed

lemma depth_bfs_terminates:
  "\<exists>s'. depth_bfs g s = Some s' \<and> d_max s \<le> d_max s'"
proof (induction s rule: wf_induct_rule[OF wf_inv_image[OF wf_lex_prod[OF wf_less_than wf_less_than]],
      of "depth_measure g"])
  case (1 s)
  show ?case
  proof (cases "d_queue s")
    case Nil
    then show ?thesis by (subst depth_bfs.simps) simp
  next
    case (Cons cur rest)
    show ?thesis
    proof (cases "map_of (d_depths s) cur")
      case None
      then show ?thesis using Cons by (subst depth_bfs.simps) simp
    next
      case (Some cd)
      define acc where "acc = foldl (relax cur cd (insert cur (d_visited s))) (d_depths s, rest)
                      (successors g cur)"
      define s1 where "s1 = \<lparr>d_queue = snd acc, d_depths = fst acc,
              d_visited = insert cur (d_visited s), d_max = max (d_max s) cd\<rparr>"
      have "(s1, s) \<in> inv_image (less_than <*lex*> less_than) (depth_measure g)"
        unfolding s1_def using depth_step_decreases[OF Cons acc_def] by simp
      from 1[OF this] obtain s' where s': "depth_bfs g s1 = Some s'" "d_max s1 \<le> d_max s'"
        by blast
      have "depth_bfs g s = depth_bfs g s1"
        by (subst depth_bfs.simps) (simp add: Cons Some Let_def s1_def acc_def)
      then show ?thesis using s' by (auto simp: s1_def)
    qed
  qed
qed

lemma depth_roots_terminates:
  "\<exists>m'. depth_roots g ns m = Some m' \<and> m \<le> m'"
proof (induction ns arbitrary: m)
  case Nil
  then show ?case by simp
next
  case (Cons n ns)
  from depth_bfs_terminates[of g "depth_start m n"] obtain s' where
    s': "depth_bfs g (depth_start m n) = Some s'" "m \<le> d_max s'"
    by (auto simp: depth_start_def)
  from Cons[of "d_max s'"] s' show ?case by auto
qed

lemma graph_depth_terminates: "\<exists>d. graph_depth g = Some d \<and> 0 \<le> d"
  using depth_roots_terminates[of g "start_nodes g" 0] by (auto simp: graph_depth_def)


lemma discover_measure:
  assumes "set succs \<subseteq> targets g"
  shows "(case foldl (discover cur lvl) (levels, visited, queue) succs of
            (levels', visited', queue') \<Rightarrow>
              breadth_measure g visited' queue' \<le> breadth_measure g visited queue)"
  using assms
proof (induction succs arbitrary: levels visited queue)
  case Nil
  then show ?case by simp
next
  case (Cons x xs)
  obtain l1 v1 q1 where d: "discover cur lvl (levels, visited, queue) x = (l1, v1, q1)"
    by (cases "discover cur lvl (levels, visited, queue) x") auto
  have x: "x \<in> targets g" using Cons.prems by simp
  have "breadth_measure g v1 q1 \<le> breadth_measure g visited queue"
  proof (cases "x \<noteq> cur \<and> x \<notin> visited")
    case True
    then have "v1 = insert x visited" "q1 = queue @ [(x, lvl + 1)]"
      using d by (auto simp: discover_def Let_def)
    moreover have "card (targets g - insert x visited) < card (targets g - visited)"
      using True x by (intro psubset_card_mono) auto
    ultimately show ?thesis by (simp add: breadth_measure_def)
  next
    case False
    then have "v1 = visited" "q1 = queue"
      using d by (auto simp: discover_def Let_def split: if_splits)
    then show ?thesis by simp
  qed
  moreover have "(case foldl (discover cur lvl) (l1, v1, q1) xs of
            (levels', visited', queue') \<Rightarrow>
              breadth_measure g visited' queue' \<le> breadth_measure g v1 q1)"
    using Cons.IH[where levels=l1 and visited=v1 and queue=q1] Cons.prems by simp
  ultimately show ?case using d by (auto split: prod.splits)
qed

lemma breadth_bfs_terminates:
  "\<exists>s'. breadth_bfs g s = Some s' \<and> b_max s \<le> b_max s'"
proof (induction s rule: measure_induct_rule[of "\<lambda>s. breadth_measure g (b_visited s) (b_queue s)"])
  case (less s)
  show ?case
  proof (cases "b_queue s")
    case Nil
    then show ?thesis by (subst breadth_bfs.simps) simp
  next
    case (Cons p rest)
    obtain cur lvl where p: "p = (cur, lvl)" by (cases p)
    obtain l1 v1 q1 where f: "foldl (discover cur lvl) (b_levels s, b_visited s, rest)
        (successors g cur) = (l1, v1, q1)"
      by (cases "foldl (discover cur lvl) (b_levels s, b_visited s, rest) (successors g cur)") auto
    define s1 where "s1 = \<lparr>b_queue = q1, b_levels = l1, b_visited = v1,
         b_max = max (b_max s) (int (length (l1 lvl)))\<rparr>"
    have "breadth_measure g v1 q1 \<le> breadth_measure g (b_visited s) rest"
      using discover_measure[where succs="successors g cur" and g=g and cur=cur and lvl=lvl
          and levels="b_levels s" and visited="b_visited s" and queue=rest,
          OF successors_targets] f
      by simp
    then have "breadth_measure g (b_visited s1) (b_queue s1)
        < breadth_measure g (b_visited s) (b_queue s)"
      by (simp add: s1_def Cons breadth_measure_def)
    from less[OF this] obtain s' where s': "breadth_bfs g s1 = Some s'" "b_max s1 \<le> b_max s'"
      by blast
    have "breadth_bfs g s = breadth_bfs g s1"
      by (subst breadth_bfs.simps) (simp add: Cons p f s1_def)
    then show ?thesis using s' by (auto simp: s1_def)
  qed
qed

lemma breadth_roots_terminates:
  "\<exists>m'. breadth_roots g ns m = Some m' \<and> m \<le> m'"
proof (induction ns arbitrary: m)
  case Nil
  then show ?case by simp
next
  case (Cons n ns)
  from breadth_bfs_terminates[of g "breadth_start m n"] obtain s' where
    s': "breadth_bfs g (breadth_start m n) = Some s'" "m \<le> b_max s'"
    by (auto simp: breadth_start_def)
  from Cons[of "b_max s'"] s' show ?case by auto
qed

lemma graph_breadth_terminates: "\<exists>d. graph_breadth g = Some d \<and> 0 \<le> d"
  using breadth_roots_terminates[of g "start_nodes g" 0] by (auto simp: graph_breadth_def)

text \<open>
  C2.  On every graph, whatever its cycles and self-loops, \<open>calculate_graph_depth\<close> and
  \<open>calculate_graph_breadth\<close> return, and each returns an integer that is not negative.
\<close>

theorem depth_breadth_terminate:
  assumes "graph b = Some g"
  shows "\<exists>d w. calculate_graph_depth b = Some (Inr d) \<and> 0 \<le> d
           \<and> calculate_graph_breadth b = Some (Inr w) \<and> 0 \<le> w"
  using assms graph_depth_terminates[of g] graph_breadth_terminates[of g]
  by (auto simp: calculate_graph_depth_def calculate_graph_breadth_def)

theorem depth_breadth_terminate_witness:
  "\<exists>d w. calculate_graph_depth
           \<lparr>trace_report = None,
            graph = Some (build_calls [mk_call ''a'' ''b'', mk_call ''b'' ''c'',
                      mk_call ''c'' ''a'', mk_call ''c'' ''c'']),
            trace_data = None\<rparr> = Some (Inr d) \<and> 0 \<le> d
      \<and> calculate_graph_breadth
           \<lparr>trace_report = None,
            graph = Some (build_calls [mk_call ''a'' ''b'', mk_call ''b'' ''c'',
                      mk_call ''c'' ''a'', mk_call ''c'' ''c'']),
            trace_data = None\<rparr> = Some (Inr w) \<and> 0 \<le> w"
  by (rule depth_breadth_terminate[where g = "build_calls [mk_call ''a'' ''b'',
        mk_call ''b'' ''c'', mk_call ''c'' ''a'', mk_call ''c'' ''c'']"]) simp

section \<open>A linear chain of calls\<close>

lemma path_depth_bfs:
  assumes p: "path_graph g ns L"
  shows "k \<le> L \<Longrightarrow> d_queue s = [ns ! k] \<Longrightarrow> map_of (d_depths s) (ns ! k) = Some (int k)
     \<Longrightarrow> (\<forall>j. k < j \<and> j \<le> L \<longrightarrow> ns ! j \<notin> d_visited s)
     \<Longrightarrow> \<exists>s'. depth_bfs g s = Some s' \<and> d_max s' = max (d_max s) (int L)"
proof (induction "L - k" arbitrary: k s)
  case 0
  then have k: "k = L" by simp
  have "successors g (ns ! k) = []" using p k by (simp add: path_graph_def)
  then show ?case using 0 k
    by (subst depth_bfs.simps, subst depth_bfs.simps) (simp add: Let_def)
next
  case (Suc n)
  then have k: "k < L" by simp
  have sk: "successors g (ns ! k) = [ns ! Suc k]" using p k by (simp add: path_graph_def)
  have ne: "ns ! Suc k \<noteq> ns ! k"
    using p k by (auto simp: path_graph_def nth_eq_iff_index_eq)
  have nv: "ns ! Suc k \<notin> insert (ns ! k) (d_visited s)"
    using Suc.prems(4) k ne by auto
  define s1 where "s1 = \<lparr>d_queue = [ns ! Suc k],
      d_depths = AList.update (ns ! Suc k) (int k + 1) (d_depths s),
      d_visited = insert (ns ! k) (d_visited s), d_max = max (d_max s) (int k)\<rparr>"
  have step: "depth_bfs g s = depth_bfs g s1"
    using Suc.prems(2,3) sk ne nv
    by (subst depth_bfs.simps) (simp add: Let_def relax_def s1_def)
  have "\<forall>j. Suc k < j \<and> j \<le> L \<longrightarrow> ns ! j \<notin> d_visited s1"
  proof (intro allI impI)
    fix j assume j: "Suc k < j \<and> j \<le> L"
    then have "ns ! j \<noteq> ns ! k" using p by (auto simp: path_graph_def nth_eq_iff_index_eq)
    then show "ns ! j \<notin> d_visited s1" using Suc.prems(4) j by (simp add: s1_def)
  qed
  moreover have "map_of (d_depths s1) (ns ! Suc k) = Some (int (Suc k))"
    by (simp add: s1_def update_conv')
  moreover have "n = L - Suc k" using Suc.hyps(2) by simp
  ultimately obtain s' where "depth_bfs g s1 = Some s'" "d_max s' = max (d_max s1) (int L)"
    using Suc.hyps(1)[of "Suc k" s1] k by (auto simp: s1_def)
  then show ?case using step k by (auto simp: s1_def)
qed

lemma path_breadth_bfs:
  assumes p: "path_graph g ns L"
  shows "k \<le> L \<Longrightarrow> b_queue s = [(ns ! k, int k)] \<Longrightarrow> b_levels s (int k) = [ns ! k]
     \<Longrightarrow> (\<forall>j. k < j \<longrightarrow> b_levels s (int j) = [])
     \<Longrightarrow> (\<forall>j. k < j \<and> j \<le> L \<longrightarrow> ns ! j \<notin> b_visited s)
     \<Longrightarrow> \<exists>s'. breadth_bfs g s = Some s' \<and> b_max s' = max (b_max s) 1"
proof (induction "L - k" arbitrary: k s)
  case 0
  then have k: "k = L" by simp
  have "successors g (ns ! k) = []" using p k by (simp add: path_graph_def)
  then show ?case using 0 k
    by (subst breadth_bfs.simps, subst breadth_bfs.simps) simp
next
  case (Suc n)
  then have k: "k < L" by simp
  have sk: "successors g (ns ! k) = [ns ! Suc k]" using p k by (simp add: path_graph_def)
  have ne: "ns ! Suc k \<noteq> ns ! k"
    using p k by (auto simp: path_graph_def nth_eq_iff_index_eq)
  have nv: "ns ! Suc k \<notin> b_visited s" using Suc.prems(5) k by auto
  define s1 where "s1 = \<lparr>b_queue = [(ns ! Suc k, int k + 1)],
      b_levels = (b_levels s)(int k + 1 := b_levels s (int k + 1) @ [ns ! Suc k]),
      b_visited = insert (ns ! Suc k) (b_visited s),
      b_max = max (b_max s) 1\<rparr>"
  have step: "breadth_bfs g s = breadth_bfs g s1"
    using Suc.prems(2,3) sk ne nv
    by (subst breadth_bfs.simps) (simp add: Let_def discover_def s1_def)
  have e: "b_levels s (int k + 1) = []" using Suc.prems(4)[rule_format, of "Suc k"] by (simp add: add.commute)
  have "\<forall>j. Suc k < j \<and> j \<le> L \<longrightarrow> ns ! j \<notin> b_visited s1"
  proof (intro allI impI)
    fix j assume j: "Suc k < j \<and> j \<le> L"
    then have "ns ! j \<noteq> ns ! Suc k" using p by (auto simp: path_graph_def nth_eq_iff_index_eq)
    then show "ns ! j \<notin> b_visited s1" using Suc.prems(5) j by (simp add: s1_def)
  qed
  moreover have "b_levels s1 (int (Suc k)) = [ns ! Suc k]"
    using e by (simp add: s1_def add.commute)
  moreover have "\<forall>j. Suc k < j \<longrightarrow> b_levels s1 (int j) = []"
    using Suc.prems(4) by (auto simp: s1_def)
  moreover have "n = L - Suc k" using Suc.hyps(2) by simp
  moreover have "b_queue s1 = [(ns ! Suc k, int (Suc k))]" by (simp add: s1_def add.commute)
  ultimately obtain s' where "breadth_bfs g s1 = Some s'" "b_max s' = max (b_max s1) 1"
    using Suc.hyps(1)[of "Suc k" s1] k by auto
  then show ?case using step by (auto simp: s1_def)
qed

lemma path_graph_depth:
  assumes p: "path_graph g ns L" and st: "start_nodes g = [ns ! 0]" and n: "g_nodes g \<noteq> []"
  shows "graph_depth g = Some (int L)"
proof -
  have "\<exists>s'. depth_bfs g (depth_start 0 (ns ! 0)) = Some s'
         \<and> d_max s' = max (d_max (depth_start 0 (ns ! 0))) (int L)"
    by (rule path_depth_bfs[OF p, of 0]) (auto simp: depth_start_def)
  then show ?thesis using st n by (auto simp: graph_depth_def number_of_nodes_def depth_start_def)
qed

lemma path_graph_breadth:
  assumes p: "path_graph g ns L" and st: "start_nodes g = [ns ! 0]" and n: "g_nodes g \<noteq> []"
  shows "graph_breadth g = Some 1"
proof -
  have d: "\<forall>j. 0 < j \<and> j \<le> L \<longrightarrow> ns ! j \<noteq> ns ! 0"
    using p by (auto simp: path_graph_def nth_eq_iff_index_eq)
  have "\<exists>s'. breadth_bfs g (breadth_start 0 (ns ! 0)) = Some s'
         \<and> b_max s' = max (b_max (breadth_start 0 (ns ! 0))) 1"
    by (rule path_breadth_bfs[OF p, of 0]) (use d in \<open>auto simp: breadth_start_def\<close>)
  then show ?thesis
    using st n by (auto simp: graph_breadth_def number_of_nodes_def breadth_start_def)
qed

lemma filter_key_unique:
  "distinct (map f xs) \<Longrightarrow> i < length xs \<Longrightarrow> filter (\<lambda>x. f x = f (xs ! i)) xs = [xs ! i]"
proof (induction xs arbitrary: i)
  case Nil
  then show ?case by simp
next
  case (Cons x xs)
  show ?case
  proof (cases i)
    case 0
    have "filter (\<lambda>y. f y = f x) xs = []"
      using Cons.prems(1) by (force simp: filter_empty_conv image_iff)
    then show ?thesis using 0 by simp
  next
    case (Suc j)
    then have "xs ! j \<in> set xs" using Cons.prems by simp
    then have "f (xs ! j) \<noteq> f x" using Cons.prems(1) by (force simp: image_iff)
    then show ?thesis using Suc Cons by auto
  qed
qed

lemma filter_key_absent: "v \<notin> f ` set xs \<Longrightarrow> filter (\<lambda>x. f x = v) xs = []"
  by (auto simp: filter_empty_conv)

lemma filter_single:
  "distinct xs \<Longrightarrow> x \<in> set xs \<Longrightarrow> P x \<Longrightarrow> (\<forall>y\<in>set xs. y \<noteq> x \<longrightarrow> \<not> P y)
     \<Longrightarrow> filter P xs = [x]"
proof (induction xs)
  case Nil
  then show ?case by simp
next
  case (Cons a xs)
  show ?case
  proof (cases "a = x")
    case True
    then have "filter P xs = []" using Cons.prems by (auto simp: filter_empty_conv)
    then show ?thesis using True Cons.prems by simp
  next
    case False
    then show ?thesis using Cons by auto
  qed
qed

lemma linear_chain_path:
  assumes lc: "linear_chain as cs"
  defines "ns \<equiv> map lower as" and "g \<equiv> build_calls cs" and "L \<equiv> length cs"
  shows "path_graph g ns L" and "start_nodes g = [ns ! 0]" and "g_nodes g \<noteq> []"
proof -
  have len: "length ns = Suc L" and dist: "distinct ns" and L: "0 < L"
    using lc by (auto simp: linear_chain_def ns_def L_def)
  have fr: "\<And>i. i < L \<Longrightarrow> call_from_lower (cs ! i) = ns ! i"
    and to: "\<And>i. i < L \<Longrightarrow> call_to_lower (cs ! i) = ns ! Suc i"
    using lc by (auto simp: linear_chain_def ns_def L_def call_from_lower_def call_to_lower_def)
  have valid: "\<forall>c\<in>set cs. valid_call c"
  proof
    fix c assume "c \<in> set cs"
    then obtain i where i: "i < length cs" "c = cs ! i" by (auto simp: in_set_conv_nth)
    then have "as ! i \<in> set as" "as ! Suc i \<in> set as" using lc by (auto simp: linear_chain_def)
    then have "as ! i \<noteq> []" "as ! Suc i \<noteq> []" using lc by (auto simp: linear_chain_def)
    then show "valid_call c" using lc i by (auto simp: valid_call_def linear_chain_def)
  qed
  have edges: "g_edges g = map call_edge cs"
    and nodes: "set (g_nodes g) = call_from_lower ` set cs \<union> call_to_lower ` set cs"
    and dn: "distinct (g_nodes g)"
    using build_calls_valid[OF valid] by (simp_all add: g_def)
  have srcs: "map fst (g_edges g) = take L ns"
    by (rule nth_equalityI) (auto simp: edges len L_def call_edge_def fr[unfolded L_def])
  have dsts: "map (\<lambda>e. fst (snd e)) (g_edges g) = tl ns"
    by (rule nth_equalityI) (auto simp: edges len L_def call_edge_def to[unfolded L_def] nth_tl)
  have le: "length (g_edges g) = L" by (simp add: edges L_def)
  have dsrc: "distinct (map fst (g_edges g))" using dist by (simp add: srcs)
  have ddst: "distinct (map (\<lambda>e. fst (snd e)) (g_edges g))" using dist by (simp add: dsts distinct_tl)
  have src_i: "\<And>i. i < L \<Longrightarrow> fst (g_edges g ! i) = ns ! i"
    by (simp add: edges call_edge_def fr L_def)
  have dst_i: "\<And>i. i < L \<Longrightarrow> fst (snd (g_edges g ! i)) = ns ! Suc i"
    by (simp add: edges call_edge_def to L_def)
  have succ_i: "successors g (ns ! i) = [ns ! Suc i]" if "i < L" for i
  proof -
    have "filter (\<lambda>e. fst e = fst (g_edges g ! i)) (g_edges g) = [g_edges g ! i]"
      using filter_key_unique[OF dsrc] that le by simp
    then show ?thesis using that by (simp add: successors_def src_i dst_i)
  qed
  have "ns ! L \<notin> set (take L ns)"
    using dist len by (auto simp: in_set_conv_nth nth_eq_iff_index_eq)
  then have "ns ! L \<notin> fst ` set (g_edges g)" using srcs by (metis set_map)
  then have succ_L: "successors g (ns ! L) = []"
    by (simp add: successors_def filter_key_absent)
  show "path_graph g ns L"
    using dist len succ_i succ_L by (simp add: path_graph_def)
  have "ns ! 0 \<notin> set (tl ns)"
    using dist len by (cases ns) auto
  then have "ns ! 0 \<notin> (\<lambda>e. fst (snd e)) ` set (g_edges g)" using dsts by (metis set_map)
  then have in0: "in_degree g (ns ! 0) = 0"
    by (simp add: in_degree_def filter_key_absent)
  have inS: "in_degree g (ns ! Suc i) = 1" if "i < L" for i
  proof -
    have "filter (\<lambda>e. fst (snd e) = fst (snd (g_edges g ! i))) (g_edges g) = [g_edges g ! i]"
      using filter_key_unique[OF ddst] that le by simp
    then show ?thesis using that by (simp add: in_degree_def dst_i)
  qed
  have cs0: "cs ! 0 \<in> set cs" using L by (simp add: L_def)
  then have n0: "ns ! 0 \<in> set (g_nodes g)"
    using fr[of 0] L nodes by (metis UnI1 image_eqI)
  then show "g_nodes g \<noteq> []" by auto
  have sub: "set (g_nodes g) \<subseteq> set ns"
  proof
    fix x assume "x \<in> set (g_nodes g)"
    then obtain c where c: "c \<in> set cs" "x = call_from_lower c \<or> x = call_to_lower c"
      using nodes by auto
    then obtain i where i: "i < L" "c = cs ! i" by (auto simp: in_set_conv_nth L_def)
    then have "x = ns ! i \<or> x = ns ! Suc i" using c fr to by auto
    then show "x \<in> set ns" using i len by auto
  qed
  have other: "\<forall>y\<in>set (g_nodes g). y \<noteq> ns ! 0 \<longrightarrow> \<not> in_degree g y = 0"
  proof (intro ballI impI)
    fix y assume y: "y \<in> set (g_nodes g)" "y \<noteq> ns ! 0"
    then have "y \<in> set ns" using sub by blast
    then obtain j where j: "j < Suc L" "y = ns ! j" using len by (auto simp: in_set_conv_nth)
    then obtain i where "j = Suc i" "i < L" using y(2) by (cases j) auto
    then show "\<not> in_degree g y = 0" using inS j by simp
  qed
  have "filter (\<lambda>n. in_degree g n = 0) (g_nodes g) = [ns ! 0]"
    by (rule filter_single[OF dn n0 in0 other])
  then show "start_nodes g = [ns ! 0]" by (simp add: start_nodes_def)
qed

text \<open>
  C4.  For a linear chain of \<open>L \<ge> 1\<close> calls over \<open>L + 1\<close> distinct addresses,
  \<open>calculate_graph_depth\<close> returns \<open>L\<close> and \<open>calculate_graph_breadth\<close> returns 1.
\<close>

theorem linear_chain_depth_breadth:
  assumes "linear_chain as cs" and "graph b = Some (build_calls cs)"
  shows "calculate_graph_depth b = Some (Inr (int (length cs)))
       \<and> calculate_graph_breadth b = Some (Inr 1)"
  using path_graph_depth[OF linear_chain_path[OF assms(1)]]
    path_graph_breadth[OF linear_chain_path[OF assms(1)]] assms(2)
  by (simp add: calculate_graph_depth_def calculate_graph_breadth_def)

theorem linear_chain_depth_breadth_witness:
  "linear_chain [''0xA1'', ''0xB2'', ''0xC3'', ''0xD4'']
     [mk_call ''0xA1'' ''0xB2'', mk_call ''0xB2'' ''0xC3'', mk_call ''0xC3'' ''0xD4'']
   \<and> calculate_graph_depth
       \<lparr>trace_report = None,
        graph = Some (build_calls [mk_call ''0xA1'' ''0xB2'', mk_call ''0xB2'' ''0xC3'',
                  mk_call ''0xC3'' ''0xD4'']),
        trace_data = None\<rparr> = Some (Inr 3)
   \<and> calculate_graph_breadth
       \<lparr>trace_report = None,
        graph = Some (build_calls [mk_call ''0xA1'' ''0xB2'', mk_call ''0xB2'' ''0xC3'',
                  mk_call ''0xC3'' ''0xD4'']),
        trace_data = None\<rparr> = Some (Inr 1)"
proof -
  let ?as = "[''0xA1'', ''0xB2'', ''0xC3'', ''0xD4'']"
  let ?cs = "[mk_call ''0xA1'' ''0xB2'', mk_call ''0xB2'' ''0xC3'', mk_call ''0xC3'' ''0xD4'']"
  have d: "distinct (map lower ?as)" by code_simp
  have i: "\<forall>i<length ?cs. c_from (?cs ! i) = Some (?as ! i) \<and> c_to (?cs ! i) = Some (?as ! Suc i)"
    by (simp add: mk_call_def All_less_Suc numeral_3_eq_3)
  have lc: "linear_chain ?as ?cs"
    unfolding linear_chain_def using d i by simp
  show ?thesis
    using lc linear_chain_depth_breadth[OF lc, of "\<lparr>trace_report = None,
        graph = Some (build_calls ?cs), trace_data = None\<rparr>"]
    by simp
qed

section \<open>The depth and the recorded values\<close>

text \<open>
  C3.  The returned depth is not always the largest value recorded in \<open>depths\<close>.  On
  the acyclic graph \<open>r \<rightarrow> b\<close>, \<open>r \<rightarrow> a\<close>, \<open>a \<rightarrow> b\<close>, when \<open>a\<close> is taken from the queue, \<open>b\<close> is
  visited already: its entry is raised to 2 (the length of the longest path), but \<open>b\<close>
  is not enqueued again, and \<open>max_depth\<close> is only ever updated from dequeued nodes, so
  the function returns 1 while the largest recorded value is 2.
\<close>

theorem depth_misses_recorded_value:
  "calculate_graph_depth \<lparr>trace_report = None, graph = Some (build_calls diamond),
       trace_data = None\<rparr> = Some (Inr 1)
   \<and> max_recorded (build_calls diamond) = Some 2
   \<and> map_option d_depths (depth_bfs (build_calls diamond) (depth_start 0 ''0xr''))
       = Some [(''0xr'', 0), (''0xb'', 2), (''0xa'', 1)]"
  by code_simp

section \<open>Classification of addresses\<close>

text \<open>
  C6.  The address \<open>0x00\<dots>06\<close> is a precompile for \<open>is_system_contract\<close> and the table of
  \<open>auditor.py\<close>, and unknown to \<open>identify_contract\<close>: the table of \<open>graph_builder.py\<close>
  stops at \<open>0x00\<dots>05\<close>.
\<close>

theorem precompiles_6_to_9_unlabelled:
  "identify_contract ''0x0000000000000000000000000000000000000006'' = None
   \<and> is_system_contract ''0x0000000000000000000000000000000000000006''
   \<and> get_system_contract_description ''0x0000000000000000000000000000000000000006''
        = Some ''Ethereum Precompile: BN256Add''"
  by code_simp

text \<open>The parts of the classification that do hold.\<close>

lemma is_system_contract_precompiles:
  "c \<in> set ''123456789'' \<Longrightarrow> is_system_contract (precompile_address c)"
  by (auto simp: is_system_contract_def precompile_address_def) code_simp+

lemma identify_contract_precompiles:
  "map (\<lambda>c. identify_contract (precompile_address c)) ''123456789'' =
     [Some ''Ethereum Precompile: ECRecover'', Some ''Ethereum Precompile: SHA256'',
      Some ''Ethereum Precompile: RIPEMD160'', Some ''Ethereum Precompile: Identity'',
      Some ''Ethereum Precompile: ModExp'', None, None, None, None]"
  by code_simp

lemma arbitrum_system_addresses:
  "identify_contract ''0x0000000000000000000000000000000000000064'' = Some ''Arbitrum: L1 ArbSys''
   \<and> identify_contract ''0x0000000000000000000000000000000000000065'' = Some ''Arbitrum: L2 ArbSys''
   \<and> is_system_contract ''0x0000000000000000000000000000000000000064''
   \<and> is_system_contract ''0x0000000000000000000000000000000000000065''"
  by code_simp

lemma identify_contract_absent:
  "lower a \<notin> fst ` set KNOWN_CONTRACTS \<Longrightarrow> identify_contract a = None"
  by (simp add: identify_contract_def map_of_eq_None_iff)

lemma length_precompile_prefix: "length precompile_prefix = 41"
  by code_simp

lemma precompile_in_table:
  "c \<in> set ''123456789'' \<Longrightarrow> precompile_prefix @ [c] \<in> fst ` set SYSTEM_CONTRACTS"
  by (auto simp: SYSTEM_CONTRACTS_def precompile_prefix_def)

lemma is_system_contract_absent:
  assumes len: "length a = 42" and abs: "lower a \<notin> fst ` set SYSTEM_CONTRACTS"
  shows "\<not> is_system_contract a"
proof
  assume s: "is_system_contract a"
  define x where "x = lower a"
  have lx: "length x = 42" using len by (simp add: x_def lower_def)
  from s abs have p: "take 41 x = precompile_prefix"
    and l: "last x \<in> set ''123456789''"
    unfolding is_system_contract_def Let_def startswith_def x_def length_precompile_prefix
    by (auto split: if_splits)
  have "x \<noteq> []" using lx by auto
  then have "x = butlast x @ [last x]" by simp
  moreover have "butlast x = take 41 x" using lx by (simp add: butlast_conv_take)
  ultimately have "x = precompile_prefix @ [last x]"
    using p by simp
  then have "x \<in> fst ` set SYSTEM_CONTRACTS"
    using precompile_in_table[OF l] by simp
  then show False using abs by (simp add: x_def)
qed

section \<open>The depth cap of the tree traversals\<close>

lemma visit_node_capped:
  "depth \<le> 50 \<Longrightarrow> capped acc \<Longrightarrow> visit_node node depth val gas_used acc = Inr acc'
     \<Longrightarrow> capped acc'"
  by (cases acc) (auto simp: capped_def visit_node_def Let_def split: if_splits)

lemma visit_node_children:
  "visit_node (TNode ty fr to v inp out gu g er cs) depth val gas_used acc
     = visit_node (TNode ty fr to v inp out gu g er cs') depth val gas_used acc"
  by (cases acc) (simp add: visit_node_def Let_def)

lemma visit_node_isOK:
  "isOK (visit_node (TNode ty fr to v inp out gu g er cs) depth val gas_used acc)
     = (\<not> (or_default ty [] \<in> set [''CALL'', ''DELEGATECALL'', ''STATICCALL'', ''CALLCODE'']
           \<and> val > 0 \<and> float_overflow val))"
  by (cases acc) (auto simp: visit_node_def Let_def isOK_def)

lemma traverse_trace_capped:
  "traverse_trace pint node depth acc = Inr r \<Longrightarrow> capped acc \<Longrightarrow> capped r"
  "traverse_trace_children pint nodes depth acc = Inr r \<Longrightarrow> capped acc \<Longrightarrow> capped r"
proof (induction pint node depth acc and pint nodes depth acc arbitrary: r and r
    rule: traverse_trace_traverse_trace_children.induct)
  case (1 pint ty fr to v inp out gu g er cs depth acc)
  show ?case
  proof (cases "depth > 50")
    case True
    then show ?thesis using "1.prems" by simp
  next
    case False
    then obtain val gas_used acc' where
      p: "parse_number pint (or_default v (RStr ''0x0'')) = Inr val"
         "parse_number pint (or_default gu (RStr ''0x0'')) = Inr gas_used"
         "visit_node (TNode ty fr to v inp out gu g er cs) depth val gas_used acc = Inr acc'"
      using "1.prems"(1) by (auto split: sum.splits)
    have "traverse_trace_children pint cs (depth + 1) acc' = Inr r"
      using "1.prems"(1) False p by simp
    moreover have "capped acc'"
      using False "1.prems"(2) p(3) visit_node_capped[of depth acc _ val gas_used acc'] by simp
    ultimately show ?thesis using "1.IH"[OF False p] by blast
  qed
next
  case (2 pint depth acc)
  then show ?case by simp
next
  case (3 pint child rest depth acc)
  then obtain acc' where a: "traverse_trace pint child depth acc = Inr acc'"
    by (auto split: sum.splits)
  then have "traverse_trace_children pint rest depth acc' = Inr r" using "3.prems"(1) by simp
  moreover have "capped acc'" using "3.IH"(1)[OF a "3.prems"(2)] .
  ultimately show ?case using "3.IH"(2)[OF a] by blast
qed

lemma traverse_trace_children_beyond:
  "depth > 50 \<Longrightarrow> traverse_trace_children pint nodes depth acc = Inr acc"
proof (induction nodes)
  case Nil
  then show ?case by simp
next
  case (Cons n ns)
  then show ?case by (cases n) simp
qed

lemma traverse_trace_cut:
  "depth \<le> 50 \<Longrightarrow>
     traverse_trace pint (cut (nat (50 - depth)) node) depth acc = traverse_trace pint node depth acc"
  "depth \<le> 50 \<Longrightarrow>
     traverse_trace_children pint (map (cut (nat (50 - depth))) nodes) depth acc
       = traverse_trace_children pint nodes depth acc"
proof (induction pint node depth acc and pint nodes depth acc
    rule: traverse_trace_traverse_trace_children.induct)
  case (1 pint ty fr to v inp out gu g er cs depth acc)
  show ?case
  proof (cases "depth = 50")
    case True
    then show ?thesis
      by (auto simp: traverse_trace_children_beyond
          visit_node_children[of _ _ _ _ _ _ _ _ _ "[]" _ _ _ _ cs]
          split: sum.splits)
  next
    case False
    then have d: "depth + 1 \<le> 50" "\<not> depth > 50" using "1.prems" by auto
    have n: "nat (50 - depth) = Suc (nat (50 - (depth + 1)))" using d by simp
    show ?thesis
      unfolding n
      using d "1.IH"[OF d(2)]
      by (auto simp: visit_node_children[of _ _ _ _ _ _ _ _ _ "map (cut (nat (49 - depth))) cs" _ _ _ _ cs]
          split: sum.splits)
  qed
next
  case (2 pint depth acc)
  then show ?case by simp
next
  case (3 pint child rest depth acc)
  then show ?case by (auto split: sum.splits)
qed

text \<open>The traversal returns exactly when the numbers of the nodes it visits are good.\<close>

lemma traverse_trace_isOK:
  "isOK (traverse_trace pint node depth acc)
     = (depth > 50 \<or> numbers_convert pint (cut (nat (50 - depth)) node))"
  "isOK (traverse_trace_children pint nodes depth acc)
     = (depth > 50 \<or> list_all (numbers_convert pint) (map (cut (nat (50 - depth))) nodes))"
proof (induction pint node depth acc and pint nodes depth acc
    rule: traverse_trace_traverse_trace_children.induct)
  case (1 pint ty fr to v inp out gu g er cs depth acc)
  show ?case
  proof (cases "depth > 50")
    case True
    then show ?thesis by (simp add: isOK_def)
  next
    case nb: False
    show ?thesis
    proof (cases "parse_number pint (or_default v (RStr ''0x0''))")
      case (Inl e)
      then show ?thesis using nb
        by (cases "nat (50 - depth)") (simp_all add: isOK_def node_converts_def)
    next
      case pv: (Inr val)
      show ?thesis
      proof (cases "parse_number pint (or_default gu (RStr ''0x0''))")
        case (Inl e)
        then show ?thesis using nb pv
          by (cases "nat (50 - depth)") (simp_all add: isOK_def node_converts_def)
      next
        case pg: (Inr gas_used)
        show ?thesis
        proof (cases "visit_node (TNode ty fr to v inp out gu g er cs) depth val gas_used acc")
          case (Inl e)
          then have "\<not> isOK (visit_node (TNode ty fr to v inp out gu g er cs) depth val gas_used acc)"
            by (simp add: isOK_def)
          then have "\<not> node_converts pint ty v gu"
            unfolding visit_node_isOK by (simp add: node_converts_def pv pg)
          then show ?thesis using nb pv pg Inl
            by (cases "nat (50 - depth)") (simp_all add: isOK_def)
        next
          case vn: (Inr acc')
          then have "isOK (visit_node (TNode ty fr to v inp out gu g er cs) depth val gas_used acc)"
            by (simp add: isOK_def)
          then have nc: "node_converts pint ty v gu"
            unfolding visit_node_isOK by (simp add: node_converts_def pv pg isOK_def)
          have ih: "isOK (traverse_trace_children pint cs (depth + 1) acc')
              = (depth + 1 > 50 \<or> list_all (numbers_convert pint)
                   (map (cut (nat (50 - (depth + 1)))) cs))"
            by (rule "1.IH"[OF nb pv pg vn])
          have t: "traverse_trace pint (TNode ty fr to v inp out gu g er cs) depth acc
              = traverse_trace_children pint cs (depth + 1) acc'"
            using nb pv pg vn by simp
          show ?thesis
          proof (cases "depth = 50")
            case True
            then show ?thesis using t ih nc by simp
          next
            case False
            then have "nat (50 - depth) = Suc (nat (50 - (depth + 1)))" using nb by simp
            then show ?thesis using t ih nc nb False by simp
          qed
        qed
      qed
    qed
  qed
next
  case (2 pint depth acc)
  then show ?case by (simp add: isOK_def)
next
  case (3 pint child rest depth acc)
  show ?case
  proof (cases "traverse_trace pint child depth acc")
    case (Inl e)
    then have "\<not> isOK (traverse_trace pint child depth acc)" by (simp add: isOK_def)
    then show ?thesis using "3.IH"(1) Inl by (auto simp: isOK_def)
  next
    case (Inr acc')
    then have "isOK (traverse_trace pint child depth acc)" by (simp add: isOK_def)
    then show ?thesis using "3.IH"(1) "3.IH"(2)[OF Inr] Inr by auto
  qed
qed

text \<open>
  C8, as the code has it.  \<open>traverse_trace\<close> of \<open>extract_calls_and_transfers\<close> never
  records a node deeper than 50: its result is that of the tree cut below depth 50, so
  nesting beyond the cap changes nothing and cannot make it fail; it returns exactly
  when, in the nodes down to depth 50, \<open>value\<close> and \<open>gasUsed\<close> parse as integers and no
  call transfers a value too large for a float; and no emitted call or transfer has a
  depth above 50.  The subtrees beyond the cap are dropped silently: nothing is logged
  at warning level.
\<close>

theorem traverse_trace_depth_cap:
  "extract_calls_and_transfers pint (cut 50 trace) = extract_calls_and_transfers pint trace
   \<and> isOK (extract_calls_and_transfers pint trace) = numbers_convert pint (cut 50 trace)
   \<and> (\<forall>s logs. extract_calls_and_transfers pint trace = Inr (s, logs) \<longrightarrow>
         (\<forall>c\<in>set (ts_calls s). ci_depth c \<le> 50) \<and> (\<forall>t\<in>set (ts_transfers s). tr_depth t \<le> 50)
         \<and> LWarning \<notin> set logs)"
proof (intro conjI allI impI)
  show "extract_calls_and_transfers pint (cut 50 trace) = extract_calls_and_transfers pint trace"
    using traverse_trace_cut(1)[of 0 pint trace "([], [])"]
    by (simp add: extract_calls_and_transfers_def)
next
  have "isOK (extract_calls_and_transfers pint trace)
          = isOK (traverse_trace pint trace 0 ([], []))"
    by (auto simp: extract_calls_and_transfers_def isOK_def split: sum.splits)
  then show "isOK (extract_calls_and_transfers pint trace) = numbers_convert pint (cut 50 trace)"
    using traverse_trace_isOK(1)[of pint trace 0 "([], [])"] by simp
next
  fix s logs
  assume e: "extract_calls_and_transfers pint trace = Inr (s, logs)"
  then obtain calls transfers where
    t: "traverse_trace pint trace 0 ([], []) = Inr (calls, transfers)"
    and s: "ts_calls s = calls" "ts_transfers s = transfers" "logs = [LInfo]"
    by (auto simp: extract_calls_and_transfers_def split: sum.splits)
  have c: "capped (calls, transfers)"
    using traverse_trace_capped(1)[OF t] by (simp add: capped_def)
  show "\<forall>c\<in>set (ts_calls s). ci_depth c \<le> 50" using c s by (simp add: capped_def)
  show "\<forall>t\<in>set (ts_transfers s). tr_depth t \<le> 50" using c s by (simp add: capped_def)
  show "LWarning \<notin> set logs" using s by simp
qed

theorem traverse_trace_depth_cap_witness:
  "numbers_convert no_parser (cut 50 (deep_chain 51))
   \<and> isOK (extract_calls_and_transfers no_parser (deep_chain 51))
   \<and> extract_calls_and_transfers no_parser (cut 50 (deep_chain 51))
       = extract_calls_and_transfers no_parser (deep_chain 51)
   \<and> list_all (\<lambda>d. d \<le> 50)
         (emitted_depths (extract_calls_and_transfers no_parser (deep_chain 51)))
   \<and> LWarning \<notin> set (logged (extract_calls_and_transfers no_parser (deep_chain 51)))"
proof -
  have p: "numbers_convert no_parser (cut 50 (deep_chain 51))" by code_simp
  show ?thesis
    using p traverse_trace_depth_cap[of no_parser "deep_chain 51"]
    by (auto simp: emitted_depths_def logged_def isOK_def list_all_iff split: sum.splits)
qed

text \<open>
  The failure the conversion to float brings: a call that transfers \<open>2 ^ 1024\<close> wei makes
  \<open>extract_calls_and_transfers\<close> raise \<open>OverflowError\<close>, although its numbers parse.
\<close>

lemma huge_transfer_overflows:
  "extract_calls_and_transfers no_parser huge_transfer = Inl OverflowError
   \<and> \<not> numbers_convert no_parser (cut 50 huge_transfer)"
  by code_simp

text \<open>
  C8, as stated, fails on a chain of 52 nested calls: \<open>extract_calls_and_transfers\<close>
  drops the call at depth 51 and logs no warning, and \<open>traverse\<close> of
  \<open>_extract_calls_from_call_tracer\<close>, which has no cap, records the call at depth 51.
\<close>

theorem deep_nesting_counterexample:
  "emitted_depths (extract_calls_and_transfers no_parser (deep_chain 51)) = [0..50]
   \<and> logged (extract_calls_and_transfers no_parser (deep_chain 51)) = [LInfo]
   \<and> tracer_depths (extract_calls_from_call_tracer no_parser id (deep_chain 51)) = [0..51]"
  by code_simp

section \<open>Before the graph is built\<close>

text \<open>
  C10.  While the graph attribute is \<open>None\<close>, each of \<open>calculate_graph_depth\<close>,
  \<open>calculate_graph_breadth\<close>, \<open>identify_central_nodes\<close> and \<open>generate_description\<close> raises
  \<open>ValueError\<close>; none returns a value.
\<close>

theorem unbuilt_graph_raises:
  assumes "graph b = None"
  shows "calculate_graph_depth b = Some (Inl ValueError)
       \<and> calculate_graph_breadth b = Some (Inl ValueError)
       \<and> identify_central_nodes b top_k = Inl ValueError
       \<and> generate_description set_iter b = Some (Inl ValueError)"
  using assms
  by (simp add: calculate_graph_depth_def calculate_graph_breadth_def
      identify_central_nodes_def generate_description_def)

theorem unbuilt_graph_raises_witness:
  "graph (init (Some (doc_of_calls []))) = None
   \<and> calculate_graph_depth (init (Some (doc_of_calls []))) = Some (Inl ValueError)
   \<and> calculate_graph_breadth (init (Some (doc_of_calls []))) = Some (Inl ValueError)
   \<and> identify_central_nodes (init (Some (doc_of_calls []))) 5 = Inl ValueError
   \<and> generate_description id (init (Some (doc_of_calls []))) = Some (Inl ValueError)"
proof -
  have g: "graph (init (Some (doc_of_calls []))) = None" by (simp add: init_def)
  show ?thesis using g unbuilt_graph_raises[OF g, of 5 id] by simp
qed

section \<open>The description\<close>

text \<open>
  With a graph and a document at hand \<open>generate_description\<close> returns a text, and leaves
  the builder as it is.
\<close>

lemma generate_description_returns:
  assumes "graph b = Some g" and "trace_data b = Some d"
  shows "\<exists>depth breadth.
           graph_depth g = Some depth \<and> graph_breadth g = Some breadth
           \<and> generate_description set_iter b =
               Some (Inr (describe set_iter g d depth breadth
                            (most_common 5 (in_degree_counter g)), b))"
proof -
  obtain depth breadth where m: "graph_depth g = Some depth" "graph_breadth g = Some breadth"
    using graph_depth_terminates[of g] graph_breadth_terminates[of g] by blast
  then show ?thesis
    using assms
    by (simp add: generate_description_def calculate_graph_depth_def
        calculate_graph_breadth_def identify_central_nodes_def)
qed

lemma build_calls_Nil: "build_calls [] = empty_graph"
  by (simp add: build_calls_def)

text \<open>
  C9.  For a document whose call list is empty or absent, \<open>build_graph\<close> returns a graph
  without nodes and edges and does not raise; on the builder it leaves, depth and
  breadth are 0, there is no central node, and \<open>generate_description\<close> returns a text.
\<close>

theorem empty_trace_metrics:
  assumes "loaded b0 d" and "summary_calls (doc_summary d) = []"
  shows "\<exists>g b s. build_graph b0 = Inr (g, b)
           \<and> number_of_nodes g = 0 \<and> number_of_edges g = 0
           \<and> calculate_graph_depth b = Some (Inr 0)
           \<and> calculate_graph_breadth b = Some (Inr 0)
           \<and> identify_central_nodes b top_k = Inr []
           \<and> generate_description set_iter b = Some (Inr (s, b))"
proof -
  let ?b = "b0\<lparr>trace_data := Some d, graph := Some empty_graph\<rparr>"
  have bg: "build_graph b0 = Inr (empty_graph, ?b)"
    using build_graph_loaded[OF assms(1)] assms(2) by (simp add: build_calls_Nil)
  have g: "graph ?b = Some empty_graph" and t: "trace_data ?b = Some d" by simp_all
  have n: "number_of_nodes empty_graph = 0" "number_of_edges empty_graph = 0"
    by (simp_all add: number_of_nodes_def number_of_edges_def empty_graph_def)
  have dp: "calculate_graph_depth ?b = Some (Inr 0)"
    by (simp add: calculate_graph_depth_def graph_depth_def n)
  have br: "calculate_graph_breadth ?b = Some (Inr 0)"
    by (simp add: calculate_graph_breadth_def graph_breadth_def n)
  have ce: "identify_central_nodes ?b top_k = Inr []"
    by (simp add: identify_central_nodes_def most_common_def in_degree_counter_def
        empty_graph_def)
  obtain s where "generate_description set_iter ?b = Some (Inr (s, ?b))"
    using generate_description_returns[OF g t] by blast
  then show ?thesis using bg n dp br ce by blast
qed

theorem empty_trace_metrics_witness:
  "\<exists>g b s. build_graph (init (Some (doc_of_calls []))) = Inr (g, b)
           \<and> number_of_nodes g = 0 \<and> number_of_edges g = 0
           \<and> calculate_graph_depth b = Some (Inr 0)
           \<and> calculate_graph_breadth b = Some (Inr 0)
           \<and> identify_central_nodes b 5 = Inr []
           \<and> generate_description id b = Some (Inr (s, b))"
proof -
  have 1: "loaded (init (Some (doc_of_calls []))) (doc_of_calls [])"
    by (simp add: loaded_def init_def)
  have 2: "summary_calls (doc_summary (doc_of_calls [])) = []"
    by (simp add: summary_calls_def doc_summary_def doc_of_calls_def summary_truthy_def)
  show ?thesis by (rule empty_trace_metrics[OF 1 2])
qed

section \<open>The description and the iteration order of sets\<close>

lemma join_Cons: "join sep (x # ys) = x @ (if ys = [] then [] else sep @ join sep ys)"
  by (cases ys) simp_all

lemma join_middle_inj:
  "join sep (pre @ x # post) = join sep (pre @ y # post) \<Longrightarrow> x = y"
proof (induction pre)
  case Nil
  then show ?case by (simp add: join_Cons)
next
  case (Cons p pre)
  then show ?case by (simp add: join_Cons)
qed

lemma two_functions_counted:
  "foldl count_call ([], []) two_functions
     = ([(''foo'', 1), (''bar'', 1)], [(''0xbb'', [''foo'', ''bar''])])"
  by code_simp

lemma two_functions_central:
  "most_common 5 (in_degree_counter (build_calls two_functions)) = [(''0xbb'', 2)]"
  by code_simp

lemma two_functions_types:
  "call_type_counter (build_calls two_functions) = [(''CALL'', 2)]"
  by code_simp

lemma two_functions_node: "lower ''0xbb'' = ''0xbb''" "identify_contract ''0xbb'' = None"
  by code_simp+

lemma two_functions_calls:
  "summary_calls (doc_summary (doc_of_calls two_functions)) = two_functions"
  by (simp add: summary_calls_def doc_summary_def doc_of_calls_def summary_truthy_def)

lemma two_functions_describe:
  "describe set_iter (build_calls two_functions) (doc_of_calls two_functions) depth breadth
      [(''0xbb'', 2)]
   = join '' ''
       ((part_start (doc_of_calls two_functions)
           @ part_functions [(''foo'', 1), (''bar'', 1)] @ part_types [(''CALL'', 2)])
        @ (txt_central_nodes
             @ (txt_contract @ ''0xbb'' @ '' ('' @ ''0xbb'' @ '')'' @ txt_called_open @ str_int 2
                  @ txt_type_times
                  @ (txt_called_functions @ join '', '' (take 3 (set_iter [''foo'', ''bar''])))
                  @ txt_called_close)
             @ txt_full_stop)
        # (part_structure (build_calls two_functions) depth breadth @ part_paths two_functions
             @ part_staticcall [(''CALL'', 2)] @ part_flow two_functions))"
  by (simp add: describe_def Let_def two_functions_counted two_functions_types
      two_functions_calls part_central_def part_delegatecall_def describe_central_def
      two_functions_node name_truthy_def or_default_def)

text \<open>
  C7.  The text is not a function of document, graph and tables alone: for two calls to
  one contract with the functions \<open>foo\<close> and \<open>bar\<close>, the sentence on the central node lists
  them in the order in which the set of its functions is iterated, so two orders of
  iteration (two hash seeds) give two different texts.
\<close>

theorem description_depends_on_set_order:
  "generate_description id (built two_functions) \<noteq> None
   \<and> generate_description rev (built two_functions) \<noteq> None
   \<and> description_text (generate_description id (built two_functions))
       \<noteq> description_text (generate_description rev (built two_functions))"
proof -
  let ?g = "build_calls two_functions" and ?d = "doc_of_calls two_functions"
  have g: "graph (built two_functions) = Some ?g" and t: "trace_data (built two_functions) = Some ?d"
    by (simp_all add: built_def)
  obtain depth breadth where m: "graph_depth ?g = Some depth" "graph_breadth ?g = Some breadth"
    using graph_depth_terminates[of ?g] graph_breadth_terminates[of ?g] by blast
  have r: "generate_description set_iter (built two_functions)
             = Some (Inr (describe set_iter ?g ?d depth breadth [(''0xbb'', 2)],
                          built two_functions))" for set_iter
    using generate_description_returns[OF g t, of set_iter] m
    by (simp add: two_functions_central)
  have "describe id ?g ?d depth breadth [(''0xbb'', 2)]
          \<noteq> describe rev ?g ?d depth breadth [(''0xbb'', 2)]"
  proof
    assume a: "describe id ?g ?d depth breadth [(''0xbb'', 2)]
          = describe rev ?g ?d depth breadth [(''0xbb'', 2)]"
    note e = join_middle_inj[OF a[unfolded two_functions_describe]]
    from e show False by simp
  qed
  then show ?thesis by (simp add: r description_text_def)
qed

end
